theory Spec2Isabelle
  imports Complex_Main
begin

section \<open>Values of the Python program\<close>

text \<open>
  The module \<^verbatim>\<open>flock_ml/analysis/experimentation.py\<close> holds two pure functions over
  Python floats. The arguments are modelled as finite reals and every arithmetic step is
  exact (no rounding); the values numpy computes are reals extended by the IEEE
  infinities and NaN, because the source relies on them: a division by zero yields an
  infinity, and only the final conversion \<^verbatim>\<open>int(...)\<close> raises.

  Rounding, overflow and underflow of the finite binary64 operations are not modelled.
  The theorems stated below for arbitrary arguments under a claim are therefore limited
  to properties that do not depend on exact arithmetic: which assertion fails, the
  symmetries of the two expressions, the outcome at a zero divisor, the sign of a returned
  value, and the order of two returned values (every rounded operation is monotone and
  keeps signs). An exact value is stated only for the concrete scenario, where the
  distance to the next integer is far above the rounding error. The auxiliary lemmas that
  compute a returned value (\<open>t_test_value\<close>, \<open>proportion_value\<close>) hold in exact arithmetic.
\<close>

datatype error = AssertionError | OverflowError | ValueError

datatype npfloat = Fin real | PInf | NInf | NaN

text \<open>The infinity carrying the sign of a finite factor; zero times infinity is NaN.\<close>

definition signed_inf :: "real \<Rightarrow> npfloat" where
  "signed_inf s = (if 0 < s then PInf else if s < 0 then NInf else NaN)"

fun np_add :: "npfloat \<Rightarrow> npfloat \<Rightarrow> npfloat" where
  "np_add (Fin a) (Fin b) = Fin (a + b)"
| "np_add NaN y = NaN"
| "np_add x NaN = NaN"
| "np_add PInf NInf = NaN"
| "np_add NInf PInf = NaN"
| "np_add PInf y = PInf"
| "np_add x PInf = PInf"
| "np_add NInf y = NInf"
| "np_add x NInf = NInf"

fun np_mul :: "npfloat \<Rightarrow> npfloat \<Rightarrow> npfloat" where
  "np_mul (Fin a) (Fin b) = Fin (a * b)"
| "np_mul NaN y = NaN"
| "np_mul x NaN = NaN"
| "np_mul (Fin a) PInf = signed_inf a"
| "np_mul (Fin a) NInf = signed_inf (- a)"
| "np_mul PInf (Fin b) = signed_inf b"
| "np_mul NInf (Fin b) = signed_inf (- b)"
| "np_mul PInf PInf = PInf"
| "np_mul NInf NInf = PInf"
| "np_mul PInf NInf = NInf"
| "np_mul NInf PInf = NInf"

text \<open>
  Division of numpy scalars does not raise: a finite value over zero is an infinity of
  the sign of the numerator, zero over zero is NaN. Both divisors of the source are a
  square or an absolute value, so a zero divisor is the positive zero.
\<close>

fun np_div :: "npfloat \<Rightarrow> npfloat \<Rightarrow> npfloat" where
  "np_div (Fin a) (Fin b) = (if b = 0 then signed_inf a else Fin (a / b))"
| "np_div NaN y = NaN"
| "np_div x NaN = NaN"
| "np_div (Fin a) PInf = Fin 0"
| "np_div (Fin a) NInf = Fin 0"
| "np_div PInf (Fin b) = (if 0 \<le> b then PInf else NInf)"
| "np_div NInf (Fin b) = (if 0 \<le> b then NInf else PInf)"
| "np_div PInf PInf = NaN"
| "np_div PInf NInf = NaN"
| "np_div NInf PInf = NaN"
| "np_div NInf NInf = NaN"

text \<open>\<^verbatim>\<open>x ** 2\<close>\<close>

fun np_square :: "npfloat \<Rightarrow> npfloat" where
  "np_square (Fin a) = Fin (a ^ 2)"
| "np_square PInf = PInf"
| "np_square NInf = PInf"
| "np_square NaN = NaN"

text \<open>\<^verbatim>\<open>np.sqrt\<close> and \<^verbatim>\<open>np.abs\<close> of a Python float.\<close>

definition np_sqrt :: "real \<Rightarrow> npfloat" where
  "np_sqrt r = (if r < 0 then NaN else Fin (sqrt r))"

definition np_abs :: "real \<Rightarrow> npfloat" where
  "np_abs r = Fin \<bar>r\<bar>"

fun np_ceil :: "npfloat \<Rightarrow> npfloat" where
  "np_ceil (Fin a) = Fin (of_int \<lceil>a\<rceil>)"
| "np_ceil PInf = PInf"
| "np_ceil NInf = NInf"
| "np_ceil NaN = NaN"

text \<open>
  \<^verbatim>\<open>int(x)\<close> truncates a finite float towards zero, raises OverflowError on an
  infinity and ValueError on NaN.
\<close>

fun py_int :: "npfloat \<Rightarrow> error + int" where
  "py_int (Fin a) = Inr (if 0 \<le> a then \<lfloor>a\<rfloor> else \<lceil>a\<rceil>)"
| "py_int PInf = Inl OverflowError"
| "py_int NInf = Inl OverflowError"
| "py_int NaN = Inl ValueError"

text \<open>
  Modelled from the spec: \<^verbatim>\<open>scipy.special.comb\<close> is a library function outside the
  sources; the specification describes \<^verbatim>\<open>comb(n_groups, 2)\<close> as the number of
  combinations of \<open>n_groups\<close> taken 2 at a time. It is a float, and 0 for a negative \<open>N\<close> or
  \<open>k > N\<close>.
\<close>

definition comb :: "int \<Rightarrow> nat \<Rightarrow> real" where
  "comb N k = (if N < 0 then 0 else real (nat N choose k))"

section \<open>The two functions of the module\<close>

text \<open>
  \<^verbatim>\<open>scipy.stats.norm.ppf\<close> is a library function and is a parameter \<open>ppf\<close> of both
  definitions. Each \<^verbatim>\<open>assert\<close> is a branch that returns \<open>AssertionError\<close> (the
  specification calls it InvalidParameter), in the order of the source. The divisor of
  \<^verbatim>\<open>alpha / comb(n_groups, 2)\<close> is at least 1 once the assertions have passed.
\<close>

definition get_t_test_group_size_with_pairwise_correction ::
  "(real \<Rightarrow> npfloat) \<Rightarrow> real \<Rightarrow> real \<Rightarrow> real \<Rightarrow> real \<Rightarrow> int \<Rightarrow> error + int" where
  "get_t_test_group_size_with_pairwise_correction ppf variance delta alpha power' n_groups =
    (if \<not> variance > 0 then Inl AssertionError
     else if \<not> (0 < alpha \<and> alpha < 1) then Inl AssertionError
     else if \<not> (alpha < power' \<and> power' < 1) then Inl AssertionError
     else if \<not> n_groups \<ge> 2 then Inl AssertionError
     else
       let adjusted_alpha = alpha / comb n_groups 2;
           group_size =
             np_div
               (np_mul (Fin (2 * variance))
                  (np_square (np_add (ppf (1 - adjusted_alpha / 2)) (ppf power'))))
               (Fin (delta ^ 2))
       in py_int (np_ceil group_size))"

definition get_proportion_test_group_size_with_pairwise_correction ::
  "(real \<Rightarrow> npfloat) \<Rightarrow> real \<Rightarrow> real \<Rightarrow> real \<Rightarrow> real \<Rightarrow> int \<Rightarrow> error + int" where
  "get_proportion_test_group_size_with_pairwise_correction ppf p1 p2 alpha power' n_groups =
    (if \<not> (0 < p1 \<and> p1 < 1) then Inl AssertionError
     else if \<not> (0 < p2 \<and> p2 < 1) then Inl AssertionError
     else if \<not> (alpha < power' \<and> power' < 1) then Inl AssertionError
     else if \<not> n_groups \<ge> 2 then Inl AssertionError
     else
       let adjusted_alpha = alpha / comb n_groups 2;
           pbar = (p1 + p2) / 2;
           qbar = 1 - pbar;
           delta = np_abs (p2 - p1);
           group_size =
             np_square
               (np_div
                  (np_add
                     (np_mul (ppf (1 - adjusted_alpha / 2)) (np_sqrt (2 * pbar * qbar)))
                     (np_mul (ppf power') (np_sqrt (p1 * (1 - p1) + p2 * (1 - p2)))))
                  delta)
       in py_int (np_ceil group_size))"

section \<open>The standard normal distribution\<close>

text \<open>
  Modelled from the spec: \<^verbatim>\<open>scipy.stats.norm.ppf\<close> is a library function outside the
  sources; the specification describes it as the quantile function (inverse distribution
  function) of the standard normal distribution.

  The distribution function of the standard normal law is given by the Maclaurin series
  of the integral of \<open>exp (- t\<^sup>2 / 2)\<close> from 0 to \<open>x\<close>:
  \<open>Phi x = 1/2 + (\<Sum>n. (-1)\<^sup>n x\<^bsup>2n+1\<^esup> / (2\<^sup>n n! (2n+1))) / sqrt (2 pi)\<close>.
  Below, \<open>Phi\<close> is shown to have the derivative \<open>exp (- x\<^sup>2 / 2) / sqrt (2 pi)\<close>, to be strictly
  increasing and to satisfy \<open>Phi (- x) = 1 - Phi x\<close>.
\<close>

definition gauss_term :: "real \<Rightarrow> nat \<Rightarrow> real" where
  "gauss_term x n = x ^ (2 * n + 1) / (2 ^ n * fact n * real (2 * n + 1))"

definition gauss_int :: "real \<Rightarrow> real" where
  "gauss_int x = (\<Sum>n. (- 1) ^ n * gauss_term x n)"

definition Phi :: "real \<Rightarrow> real" where
  "Phi x = 1 / 2 + gauss_int x / sqrt (2 * pi)"

text \<open>
  The quantile function: the point where \<open>Phi\<close> takes the value \<open>p\<close>. It has no closed form;
  \<open>Phi\<close> is injective, so the point is unique where it exists.
\<close>

definition Phi_inv :: "real \<Rightarrow> real" where
  "Phi_inv p = (THE z. Phi z = p)"

text \<open>
  Modelled from the spec: \<^verbatim>\<open>norm.ppf\<close> with exact values, the quantile inside \<open>(0, 1)\<close>;
  as scipy documents it, the infinities at 0 and 1 and NaN elsewhere.
\<close>

definition norm_ppf :: "real \<Rightarrow> npfloat" where
  "norm_ppf p =
    (if 0 < p \<and> p < 1 then Fin (Phi_inv p)
     else if p = 1 then PInf else if p = 0 then NInf else NaN)"

text \<open>A function \<open>ppf\<close> returns the normal quantile at the probability \<open>p\<close>.\<close>

definition quantile_at :: "(real \<Rightarrow> npfloat) \<Rightarrow> real \<Rightarrow> bool" where
  "quantile_at ppf p = (case ppf p of Fin z \<Rightarrow> Phi z = p | PInf \<Rightarrow> False | NInf \<Rightarrow> False | NaN \<Rightarrow> False)"

section \<open>Auxiliary definitions\<close>

text \<open>
  The series of \<open>gauss_int\<close> as a power series in \<open>x\<close> (the coefficient of \<open>x\<^sup>k\<close>), and its
  partial sums.
\<close>

definition gauss_coeff :: "nat \<Rightarrow> real" where
  "gauss_coeff k = (if even k then 0
     else (- 1) ^ ((k - 1) div 2) / (2 ^ ((k - 1) div 2) * fact ((k - 1) div 2) * real k))"

definition gauss_partial :: "real \<Rightarrow> nat \<Rightarrow> real" where
  "gauss_partial x K = (\<Sum>i<K. (- 1) ^ i * gauss_term x i)"

section \<open>Analysis of the normal distribution function\<close>

subsection \<open>Convergence, derivative and monotonicity\<close>

lemma gauss_term_abs_le:
  "\<bar>(- 1) ^ n * gauss_term x n\<bar> \<le> \<bar>x\<bar> * ((x\<^sup>2 / 2) ^ n / fact n)"
proof -
  have "\<bar>(- 1) ^ n * gauss_term x n\<bar> = \<bar>x\<bar> * ((x\<^sup>2 / 2) ^ n / fact n) / real (2 * n + 1)"
    by (simp add: gauss_term_def abs_mult power_abs power_mult power_divide
        flip: power2_eq_square)
  also have "\<dots> \<le> \<bar>x\<bar> * ((x\<^sup>2 / 2) ^ n / fact n) / 1"
    by (rule frac_le) auto
  finally show ?thesis by simp
qed

lemma summable_gauss_series: "summable (\<lambda>n. (- 1) ^ n * gauss_term x n)"
proof (rule summable_comparison_test)
  show "\<exists>N. \<forall>n\<ge>N. norm ((- 1) ^ n * gauss_term x n) \<le> \<bar>x\<bar> * ((x\<^sup>2 / 2) ^ n / fact n)"
    using gauss_term_abs_le by auto
  have "summable (\<lambda>n. (x\<^sup>2 / 2) ^ n /\<^sub>R fact n)"
    by (rule summable_exp_generic)
  then have "summable (\<lambda>n. (x\<^sup>2 / 2) ^ n / fact n)"
    by (simp only: real_scaleR_def inverse_eq_divide times_divide_eq_left mult_1)
  then show "summable (\<lambda>n. \<bar>x\<bar> * ((x\<^sup>2 / 2) ^ n / fact n))"
    by (rule summable_mult)
qed

lemma gauss_coeff_term:
  "gauss_coeff k * x ^ k = (if even k then 0 else (- 1) ^ ((k - 1) div 2) * gauss_term x ((k - 1) div 2))"
proof (cases "even k")
  case True
  then show ?thesis by (simp add: gauss_coeff_def)
next
  case False
  then obtain m where k: "k = 2 * m + 1" by (auto elim: oddE)
  show ?thesis by (simp add: k gauss_coeff_def gauss_term_def)
qed

lemma gauss_powser_sums: "(\<lambda>k. gauss_coeff k * x ^ k) sums gauss_int x"
proof -
  have "(\<lambda>n. (- 1) ^ n * gauss_term x n) sums gauss_int x"
    unfolding gauss_int_def by (rule summable_sums [OF summable_gauss_series])
  from sums_if' [OF this] show ?thesis
    by (simp add: gauss_coeff_term)
qed

lemma gauss_diffs: "diffs gauss_coeff n * x ^ n =
    (if even n then (- (x\<^sup>2) / 2) ^ (n div 2) / fact (n div 2) else 0)"
proof (cases "even n")
  case True
  then obtain m where n: "n = 2 * m" by (auto elim: evenE)
  have "(- (x\<^sup>2 / 2)) ^ m = (- 1) ^ m * x ^ (2 * m) / 2 ^ m"
    by (simp add: power_divide power_minus [of "x\<^sup>2 / 2"] power_mult)
  then show ?thesis
    by (simp add: n diffs_def gauss_coeff_def field_simps del: of_nat_Suc)
next
  case False
  then show ?thesis by (simp add: diffs_def gauss_coeff_def)
qed

lemma gauss_deriv_sums: "(\<lambda>n. diffs gauss_coeff n * x ^ n) sums exp (- (x\<^sup>2) / 2)"
proof -
  have "(\<lambda>m. (- (x\<^sup>2) / 2) ^ m /\<^sub>R fact m) sums exp (- (x\<^sup>2) / 2)"
    by (rule exp_converges)
  then have f: "(\<lambda>m. (- (x\<^sup>2) / 2) ^ m / fact m) sums exp (- (x\<^sup>2) / 2)"
    by (simp only: real_scaleR_def inverse_eq_divide times_divide_eq_left mult_1)
  have z: "(\<lambda>n::nat. 0::real) sums 0" by simp
  from sums_if [OF z f] show ?thesis
    by (simp add: gauss_diffs)
qed

lemma DERIV_gauss_int: "DERIV gauss_int x :> exp (- (x\<^sup>2) / 2)"
proof -
  have s: "\<And>y. summable (\<lambda>n. gauss_coeff n * y ^ n)"
    using gauss_powser_sums by (rule sums_summable)
  have e: "gauss_int = (\<lambda>x. \<Sum>n. gauss_coeff n * x ^ n)"
    using gauss_powser_sums by (auto simp: sums_iff)
  have d: "(\<Sum>n. diffs gauss_coeff n * x ^ n) = exp (- (x\<^sup>2) / 2)"
    using gauss_deriv_sums by (simp add: sums_iff)
  show ?thesis
    unfolding e using termdiffs_strong_converges_everywhere [of gauss_coeff x, OF s]
    by (simp add: d)
qed

lemma gauss_int_strict_mono: "x < y \<Longrightarrow> gauss_int x < gauss_int y"
  by (rule DERIV_pos_imp_increasing [of x y gauss_int]) (auto intro: DERIV_gauss_int)

lemma gauss_int_minus: "gauss_int (- x) = - gauss_int x"
proof -
  have "gauss_term (- x) n = - gauss_term x n" for n
    by (simp add: gauss_term_def)
  then show ?thesis
    by (simp add: gauss_int_def suminf_minus [OF summable_gauss_series])
qed

lemma Phi_strict_mono: "x < y \<Longrightarrow> Phi x < Phi y"
  by (simp add: Phi_def gauss_int_strict_mono divide_strict_right_mono)

lemma Phi_minus: "Phi (- x) = 1 - Phi x"
  by (simp add: Phi_def gauss_int_minus)

lemma Phi_inj: "Phi x = Phi y \<Longrightarrow> x = y"
  using Phi_strict_mono [of x y] Phi_strict_mono [of y x] by (cases x y rule: linorder_cases) auto

lemma Phi_zero: "Phi 0 = 1 / 2"
  by (simp add: Phi_def gauss_int_def gauss_term_def)

lemma isCont_Phi: "isCont Phi x"
proof -
  have "isCont gauss_int x" using DERIV_gauss_int by (rule DERIV_isCont)
  then show ?thesis unfolding Phi_def by (intro continuous_intros) auto
qed

lemma DERIV_Phi: "DERIV Phi x :> exp (- (x\<^sup>2) / 2) / sqrt (2 * pi)"
proof -
  have e: "Phi = (\<lambda>x. 1 / 2 + gauss_int x / sqrt (2 * pi))"
    by (rule ext) (simp add: Phi_def)
  have "DERIV (\<lambda>x. gauss_int x / sqrt (2 * pi)) x :> exp (- (x\<^sup>2) / 2) / sqrt (2 * pi)"
    by (rule DERIV_cdivide [OF DERIV_gauss_int])
  then have "DERIV (\<lambda>x. 1 / 2 + gauss_int x / sqrt (2 * pi)) x
      :> 0 + exp (- (x\<^sup>2) / 2) / sqrt (2 * pi)"
    by (rule DERIV_add [OF DERIV_const])
  then show ?thesis
    unfolding e by simp
qed

subsection \<open>Bounds on \<open>pi\<close> and on the series\<close>

lemma arctan_partial_bounds:
  assumes x: "0 \<le> x" "x \<le> 1"
  shows "(\<Sum>i<2 * n. (- 1) ^ i * (1 / real (i * 2 + 1) * x ^ (i * 2 + 1))) \<le> arctan x"
    and "arctan x \<le> (\<Sum>i<2 * n + 1. (- 1) ^ i * (1 / real (i * 2 + 1) * x ^ (i * 2 + 1)))"
proof -
  let ?a = "\<lambda>i. 1 / real (i * 2 + 1) * x ^ (i * 2 + 1)"
  have ax: "\<bar>x\<bar> \<le> 1" using x by simp
  have z: "?a \<longlonglongrightarrow> 0" by (rule zeroseq_arctan_series [OF ax])
  have p: "\<And>i. 0 \<le> ?a i" using x by simp
  have m: "\<And>i. ?a (Suc i) \<le> ?a i"
  proof -
    fix i
    have "x ^ (Suc i * 2 + 1) \<le> x ^ (i * 2 + 1)"
      using x by (intro power_decreasing) auto
    moreover have "1 / real (Suc i * 2 + 1) \<le> 1 / real (i * 2 + 1)"
      by (intro divide_left_mono) auto
    ultimately show "?a (Suc i) \<le> ?a i"
      using x by (intro mult_mono) auto
  qed
  have e: "arctan x = (\<Sum>i. (- 1) ^ i * ?a i)" by (rule arctan_series [OF ax])
  show "(\<Sum>i<2 * n. (- 1) ^ i * ?a i) \<le> arctan x"
    using summable_Leibniz'(2) [of ?a, OF z p m, of n] by (simp only: e)
  show "arctan x \<le> (\<Sum>i<2 * n + 1. (- 1) ^ i * ?a i)"
    using summable_Leibniz'(4) [of ?a, OF z p m, of n] by (simp only: e)
qed

lemma arctan_5_bounds: "1 / 5 - 1 / 375 \<le> arctan (1 / 5)" "arctan (1 / 5) \<le> 1 / 5 - 1 / 375 + 1 / 15625"
  using arctan_partial_bounds(1) [of "1 / 5" 1] arctan_partial_bounds(2) [of "1 / 5" 1]
  by (simp_all add: eval_nat_numeral)

lemma arctan_239_bounds: "1 / 239 - 1 / (3 * 239 ^ 3) \<le> arctan (1 / 239)" "arctan (1 / 239) \<le> 1 / 239"
  using arctan_partial_bounds(1) [of "1 / 239" 1] arctan_partial_bounds(2) [of "1 / 239" 0]
  by (simp_all add: eval_nat_numeral)

lemma pi_bounds: "3.1405 < pi" "pi < 3.1417"
proof -
  have m: "pi = 16 * arctan (1 / 5) - 4 * arctan (1 / 239)"
    using machin by simp
  show "3.1405 < pi" unfolding m using arctan_5_bounds(1) arctan_239_bounds(2) by simp
  show "pi < 3.1417" unfolding m using arctan_5_bounds(2) arctan_239_bounds(1) by simp
qed

lemma sqrt_2pi_bounds: "2.5061 < sqrt (2 * pi)" "sqrt (2 * pi) < 2.5067"
proof -
  show "2.5061 < sqrt (2 * pi)"
    by (rule real_less_rsqrt) (use pi_bounds(1) in \<open>simp add: power2_eq_square\<close>)
  show "sqrt (2 * pi) < 2.5067"
    by (rule real_less_lsqrt) (use pi_bounds(2) in \<open>simp_all add: power2_eq_square\<close>)
qed

lemma gauss_term_nonneg: "0 \<le> x \<Longrightarrow> 0 \<le> gauss_term x n"
  by (simp add: gauss_term_def)

lemma gauss_term_decreasing:
  assumes x: "0 \<le> x" and n: "x\<^sup>2 \<le> 2 * real n + 2"
  shows "gauss_term x (Suc n) \<le> gauss_term x n"
proof -
  have P: "0 \<le> x ^ (2 * n + 1) * (2 ^ n * fact n)"
    using x by simp
  have I: "x\<^sup>2 * real (2 * n + 1) \<le> (2 * real n + 2) * real (2 * n + 3)"
    using n by (intro mult_mono) auto
  have "x ^ (2 * n + 1) * (2 ^ n * fact n) * (x\<^sup>2 * real (2 * n + 1))
      \<le> x ^ (2 * n + 1) * (2 ^ n * fact n) * ((2 * real n + 2) * real (2 * n + 3))"
    by (rule mult_left_mono [OF I P])
  then have c: "x ^ (2 * Suc n + 1) * (2 ^ n * fact n * real (2 * n + 1))
      \<le> x ^ (2 * n + 1) * (2 ^ Suc n * fact (Suc n) * real (2 * Suc n + 1))"
    by (simp add: algebra_simps power2_eq_square)
  have d: "0 < 2 ^ n * fact n * real (2 * n + 1)"
    by simp
  have d': "0 < 2 ^ Suc n * fact (Suc n) * real (2 * Suc n + 1)"
    by (intro mult_pos_pos) simp_all
  show ?thesis
    unfolding gauss_term_def
    by (simp only: pos_divide_le_eq [OF d'] times_divide_eq_left pos_le_divide_eq [OF d] c)
qed

lemma gauss_term_tendsto_zero: "gauss_term x \<longlonglongrightarrow> 0"
proof -
  have "(\<lambda>n. (- 1) ^ n * gauss_term x n) \<longlonglongrightarrow> 0"
    by (rule summable_LIMSEQ_zero [OF summable_gauss_series])
  then have "(\<lambda>n. \<bar>(- 1) ^ n * gauss_term x n\<bar>) \<longlonglongrightarrow> 0"
    by (simp add: tendsto_rabs_zero_iff)
  then have "(\<lambda>n. \<bar>gauss_term x n\<bar>) \<longlonglongrightarrow> 0"
    by (simp add: abs_mult)
  then show ?thesis by (simp add: tendsto_rabs_zero_iff)
qed

lemma gauss_int_bounds:
  assumes x: "0 \<le> x" and K: "even K" "x\<^sup>2 \<le> 2 * real K + 2"
  shows "gauss_partial x K \<le> gauss_int x" and "gauss_int x \<le> gauss_partial x (Suc K)"
proof -
  let ?a = "\<lambda>i. gauss_term x (i + K)"
  have z: "?a \<longlonglongrightarrow> 0"
    using gauss_term_tendsto_zero [of x] by (rule LIMSEQ_ignore_initial_segment)
  have p: "\<And>i. 0 \<le> ?a i" by (rule gauss_term_nonneg [OF x])
  have m: "\<And>i. ?a (Suc i) \<le> ?a i"
  proof -
    fix i
    have "x\<^sup>2 \<le> 2 * real (i + K) + 2" using K(2) by simp
    from gauss_term_decreasing [OF x this] show "?a (Suc i) \<le> ?a i" by simp
  qed
  have s: "gauss_int x = (\<Sum>i. (- 1) ^ i * ?a i) + gauss_partial x K"
    unfolding gauss_int_def gauss_partial_def
    using suminf_split_initial_segment [OF summable_gauss_series, of x K] K(1)
    by (simp add: power_add)
  have lo: "0 \<le> (\<Sum>i. (- 1) ^ i * ?a i)"
    using summable_Leibniz'(2) [of ?a, OF z p m, of 0] by simp
  have hi: "(\<Sum>i. (- 1) ^ i * ?a i) \<le> gauss_term x K"
    using summable_Leibniz'(4) [of ?a, OF z p m, of 0] by simp
  show "gauss_partial x K \<le> gauss_int x" using lo s by simp
  show "gauss_int x \<le> gauss_partial x (Suc K)"
    using hi s K(1) by (simp add: gauss_partial_def)
qed

lemma Phi_upper:
  assumes "0 \<le> x" "even K" "x\<^sup>2 \<le> 2 * real K + 2" "1 / 2 \<le> p"
    and "gauss_partial x (Suc K) < (p - 1 / 2) * 2.5061"
  shows "Phi x < p"
proof -
  have "gauss_int x \<le> gauss_partial x (Suc K)" by (rule gauss_int_bounds(2) [OF assms(1-3)])
  also note assms(5)
  also have "(p - 1 / 2) * 2.5061 \<le> (p - 1 / 2) * sqrt (2 * pi)"
    using sqrt_2pi_bounds(1) assms(4) by (intro mult_left_mono) auto
  finally have "gauss_int x / sqrt (2 * pi) < p - 1 / 2"
    by (simp add: divide_less_eq)
  then show ?thesis by (simp add: Phi_def)
qed

lemma Phi_lower:
  assumes "0 \<le> x" "even K" "x\<^sup>2 \<le> 2 * real K + 2" "1 / 2 \<le> p"
    and "(p - 1 / 2) * 2.5067 < gauss_partial x K"
  shows "p < Phi x"
proof -
  have "(p - 1 / 2) * sqrt (2 * pi) \<le> (p - 1 / 2) * 2.5067"
    using sqrt_2pi_bounds(2) assms(4) by (intro mult_left_mono) auto
  also note assms(5)
  also have "gauss_partial x K \<le> gauss_int x" by (rule gauss_int_bounds(1) [OF assms(1-3)])
  finally have "p - 1 / 2 < gauss_int x / sqrt (2 * pi)"
    by (simp add: less_divide_eq)
  then show ?thesis by (simp add: Phi_def)
qed

lemma gauss_partial_Suc: "gauss_partial x (Suc K) = gauss_partial x K + (- 1) ^ K * gauss_term x K"
  by (simp add: gauss_partial_def)

lemma gauss_partial_0: "gauss_partial x 0 = 0"
  by (simp add: gauss_partial_def)

lemmas gauss_eval = eval_nat_numeral gauss_partial_Suc gauss_partial_0 gauss_term_def

lemma Phi_1950: "Phi 1.95 < 0.975"
proof (rule Phi_upper [where K = 12])
  show "gauss_partial 1.95 (Suc 12) < (0.975 - 1 / 2) * 2.5061"
    by (simp add: gauss_eval)
qed (simp_all add: power2_eq_square)

lemma Phi_1962: "0.975 < Phi 1.962"
proof (rule Phi_lower [where K = 12])
  show "(0.975 - 1 / 2) * 2.5067 < gauss_partial 1.962 12"
    by (simp add: gauss_eval)
qed (simp_all add: power2_eq_square)

lemma Phi_0835: "Phi 0.835 < 0.8"
proof (rule Phi_upper [where K = 8])
  show "gauss_partial 0.835 (Suc 8) < (0.8 - 1 / 2) * 2.5061"
    by (simp add: gauss_eval)
qed (simp_all add: power2_eq_square)

lemma Phi_0844: "0.8 < Phi 0.844"
proof (rule Phi_lower [where K = 8])
  show "(0.8 - 1 / 2) * 2.5067 < gauss_partial 0.844 8"
    by (simp add: gauss_eval)
qed (simp_all add: power2_eq_square)

lemma Phi_2: "Phi 2 < 239 / 240"
proof (rule Phi_upper [where K = 8])
  show "gauss_partial 2 (Suc 8) < (239 / 240 - 1 / 2) * 2.5061"
    by (simp add: gauss_eval)
qed (simp_all add: power2_eq_square)

lemma Phi_27: "239 / 240 < Phi 2.7"
proof (rule Phi_lower [where K = 18])
  show "(239 / 240 - 1 / 2) * 2.5067 < gauss_partial 2.7 18"
    by (simp add: gauss_eval)
qed (simp_all add: power2_eq_square)

lemma Phi_inv_eq: "Phi z = p \<Longrightarrow> Phi_inv p = z"
  unfolding Phi_inv_def by (rule the_equality) (auto dest: Phi_inj)

lemma Phi_reaches:
  assumes "Phi a < p" "p < Phi b"
  shows "\<exists>z. a < z \<and> z < b \<and> Phi z = p"
proof -
  have ab: "a \<le> b"
  proof (rule ccontr)
    assume "\<not> a \<le> b"
    then have "Phi b < Phi a" by (intro Phi_strict_mono) simp
    with assms show False by simp
  qed
  have "continuous_on {a..b} Phi"
    by (intro continuous_at_imp_continuous_on ballI isCont_Phi)
  from IVT' [of Phi a p b, OF _ _ ab this] assms
  obtain z where z: "a \<le> z" "z \<le> b" "Phi z = p" by auto
  with assms have "z \<noteq> a" "z \<noteq> b" by auto
  with z show ?thesis by (intro exI [of _ z]) auto
qed

lemma Phi_inv_between:
  assumes "Phi a < p" "p < Phi b"
  shows "Phi (Phi_inv p) = p" and "a < Phi_inv p" and "Phi_inv p < b"
proof -
  from Phi_reaches [OF assms] obtain z where z: "a < z" "z < b" "Phi z = p" by blast
  from Phi_inv_eq [OF z(3)] z show "Phi (Phi_inv p) = p" "a < Phi_inv p" "Phi_inv p < b"
    by simp_all
qed

section \<open>Properties of the embedded functions\<close>

lemma py_int_ceil: "py_int (np_ceil (Fin r)) = Inr \<lceil>r\<rceil>"
  by simp

lemma comb_2_ge_1: "2 \<le> n \<Longrightarrow> 1 \<le> comb n 2"
  by (simp add: comb_def Suc_le_eq)

lemma comb_2_eq: "2 \<le> n \<Longrightarrow> comb n 2 = real (nat n choose 2)"
  by (simp add: comb_def)

lemma comb_2_mono: "2 \<le> m \<Longrightarrow> m \<le> n \<Longrightarrow> comb m 2 \<le> comb n 2"
proof -
  assume m: "2 \<le> m" and mn: "m \<le> n"
  have "nat m * (nat m - 1) \<le> nat n * (nat n - 1)"
    using mn by (intro mult_le_mono) auto
  then have "nat m choose 2 \<le> nat n choose 2"
    by (simp add: choose_two div_le_mono)
  with m mn show ?thesis by (simp add: comb_def)
qed

lemma quantile_atD:
  assumes "quantile_at ppf p"
  shows "ppf p = Fin (Phi_inv p)" and "Phi (Phi_inv p) = p"
proof -
  from assms obtain z where z: "ppf p = Fin z" "Phi z = p"
    by (auto simp: quantile_at_def split: npfloat.splits)
  from Phi_inv_eq [OF z(2)] z show "ppf p = Fin (Phi_inv p)" "Phi (Phi_inv p) = p"
    by simp_all
qed

lemma quantile_at_norm_ppf:
  assumes "0 < p" "p < 1" "Phi a < p" "p < Phi b"
  shows "quantile_at norm_ppf p"
  using assms(1,2) Phi_inv_between(1) [OF assms(3,4)]
  by (simp add: quantile_at_def norm_ppf_def)

lemma q975: "quantile_at norm_ppf 0.975"
  by (rule quantile_at_norm_ppf [OF _ _ Phi_1950 Phi_1962]) simp_all

lemma q80: "quantile_at norm_ppf 0.8"
  by (rule quantile_at_norm_ppf [OF _ _ Phi_0835 Phi_0844]) simp_all

lemma q239: "quantile_at norm_ppf (239 / 240)"
  by (rule quantile_at_norm_ppf [OF _ _ Phi_2 Phi_27]) simp_all

lemma t_test_asserts:
  "get_t_test_group_size_with_pairwise_correction ppf variance delta alpha power' n_groups
     = Inl AssertionError
   \<longleftrightarrow> variance \<le> 0 \<or> alpha \<le> 0 \<or> 1 \<le> alpha \<or> power' \<le> alpha \<or> 1 \<le> power' \<or> n_groups < 2"
proof -
  have "py_int x \<noteq> Inl AssertionError" for x
    by (cases x) simp_all
  then show ?thesis
    by (auto simp: get_t_test_group_size_with_pairwise_correction_def Let_def)
qed

lemma proportion_asserts:
  "get_proportion_test_group_size_with_pairwise_correction ppf p1 p2 alpha power' n_groups
     = Inl AssertionError
   \<longleftrightarrow> p1 \<le> 0 \<or> 1 \<le> p1 \<or> p2 \<le> 0 \<or> 1 \<le> p2 \<or> power' \<le> alpha \<or> 1 \<le> power' \<or> n_groups < 2"
proof -
  have "py_int x \<noteq> Inl AssertionError" for x
    by (cases x) simp_all
  then show ?thesis
    by (auto simp: get_proportion_test_group_size_with_pairwise_correction_def Let_def)
qed

lemma t_test_value:
  assumes "0 < variance" "0 < alpha" "alpha < 1" "alpha < power'" "power' < 1" "2 \<le> n_groups"
    and "ppf (1 - alpha / comb n_groups 2 / 2) = Fin za" "ppf power' = Fin zp" "delta \<noteq> 0"
  shows "get_t_test_group_size_with_pairwise_correction ppf variance delta alpha power' n_groups
    = Inr \<lceil>2 * variance * (za + zp)\<^sup>2 / delta\<^sup>2\<rceil>"
  using assms by (simp add: get_t_test_group_size_with_pairwise_correction_def Let_def)

lemma t_test_zero_delta:
  assumes "0 < variance" "0 < alpha" "alpha < 1" "alpha < power'" "power' < 1" "2 \<le> n_groups"
    and "ppf (1 - alpha / comb n_groups 2 / 2) = Fin za" "ppf power' = Fin zp" "za + zp \<noteq> 0"
  shows "get_t_test_group_size_with_pairwise_correction ppf variance 0 alpha power' n_groups
    = Inl OverflowError"
  using assms
  by (simp add: get_t_test_group_size_with_pairwise_correction_def Let_def signed_inf_def
      zero_less_mult_iff)

lemma proportion_value:
  assumes "0 < p1" "p1 < 1" "0 < p2" "p2 < 1" "alpha < power'" "power' < 1" "2 \<le> n_groups"
    and "ppf (1 - alpha / comb n_groups 2 / 2) = Fin za" "ppf power' = Fin zp" "p1 \<noteq> p2"
  shows "get_proportion_test_group_size_with_pairwise_correction ppf p1 p2 alpha power' n_groups
    = Inr \<lceil>((za * sqrt (2 * ((p1 + p2) / 2) * (1 - (p1 + p2) / 2))
            + zp * sqrt (p1 * (1 - p1) + p2 * (1 - p2))) / \<bar>p2 - p1\<bar>)\<^sup>2\<rceil>"
proof -
  have a: "0 \<le> 2 * ((p1 + p2) / 2) * (1 - (p1 + p2) / 2)"
    using assms(1-4) by (intro mult_nonneg_nonneg) auto
  have b: "0 \<le> p1 * (1 - p1) + p2 * (1 - p2)"
    using assms(1-4) by (intro add_nonneg_nonneg mult_nonneg_nonneg) auto
  show ?thesis
    using assms a b
    by (simp add: get_proportion_test_group_size_with_pairwise_correction_def Let_def
        np_sqrt_def np_abs_def not_less)
qed

text \<open>
  What a returned value tells: every assertion has passed, the divisor is not zero, both
  calls of \<open>ppf\<close> have returned finite values, and the value is the ceiling of the
  quotient.
\<close>

lemma py_int_not_assert: "py_int x \<noteq> Inl AssertionError"
  by (cases x) simp_all

lemma py_int_ceil_Inr:
  "py_int (np_ceil x) = Inr m \<Longrightarrow> \<exists>r. x = Fin r \<and> m = \<lceil>r\<rceil>"
  by (cases x) (auto split: if_splits)

lemma np_div_Fin:
  "np_div x (Fin d) = Fin r \<Longrightarrow> \<exists>a. x = Fin a \<and> d \<noteq> 0 \<and> r = a / d"
  by (cases x) (auto simp: signed_inf_def split: if_splits)

lemma np_mul_Fin:
  "np_mul x y = Fin r \<Longrightarrow> \<exists>a b. x = Fin a \<and> y = Fin b \<and> r = a * b"
  by (cases x; cases y) (auto simp: signed_inf_def split: if_splits)

lemma np_add_Fin:
  "np_add x y = Fin r \<Longrightarrow> \<exists>a b. x = Fin a \<and> y = Fin b \<and> r = a + b"
  by (cases x; cases y) auto

lemma np_square_Fin:
  "np_square x = Fin r \<Longrightarrow> \<exists>a. x = Fin a \<and> r = a\<^sup>2"
  by (cases x) auto

lemma t_test_returns:
  assumes "get_t_test_group_size_with_pairwise_correction ppf variance delta alpha power' n_groups
    = Inr m"
  shows "0 < variance" "0 < alpha" "alpha < 1" "alpha < power'" "power' < 1" "2 \<le> n_groups"
    and "delta \<noteq> 0"
    and "\<exists>za zp. ppf (1 - alpha / comb n_groups 2 / 2) = Fin za \<and> ppf power' = Fin zp
          \<and> m = \<lceil>2 * variance * (za + zp)\<^sup>2 / delta\<^sup>2\<rceil>"
proof -
  from assms show v: "0 < variance" "0 < alpha" "alpha < 1" "alpha < power'" "power' < 1"
      "2 \<le> n_groups"
    by (auto simp: get_t_test_group_size_with_pairwise_correction_def split: if_splits)
  with assms have "py_int (np_ceil (np_div
      (np_mul (Fin (2 * variance))
        (np_square (np_add (ppf (1 - alpha / comb n_groups 2 / 2)) (ppf power'))))
      (Fin (delta\<^sup>2)))) = Inr m"
    by (simp add: get_t_test_group_size_with_pairwise_correction_def Let_def)
  from py_int_ceil_Inr [OF this] obtain r where r: "np_div
      (np_mul (Fin (2 * variance))
        (np_square (np_add (ppf (1 - alpha / comb n_groups 2 / 2)) (ppf power'))))
      (Fin (delta\<^sup>2)) = Fin r" "m = \<lceil>r\<rceil>" by blast
  from np_div_Fin [OF r(1)] obtain a where a: "np_mul (Fin (2 * variance))
        (np_square (np_add (ppf (1 - alpha / comb n_groups 2 / 2)) (ppf power'))) = Fin a"
      "delta\<^sup>2 \<noteq> 0" "r = a / delta\<^sup>2" by blast
  from np_mul_Fin [OF a(1)] obtain b where b:
      "np_square (np_add (ppf (1 - alpha / comb n_groups 2 / 2)) (ppf power')) = Fin b"
      "a = 2 * variance * b" by auto
  from np_square_Fin [OF b(1)] obtain s where s:
      "np_add (ppf (1 - alpha / comb n_groups 2 / 2)) (ppf power') = Fin s" "b = s\<^sup>2" by blast
  from np_add_Fin [OF s(1)] obtain za zp where z:
      "ppf (1 - alpha / comb n_groups 2 / 2) = Fin za" "ppf power' = Fin zp" "s = za + zp" by blast
  from a(2) show "delta \<noteq> 0" by simp
  from r(2) a(3) b(2) s(2) z show "\<exists>za zp. ppf (1 - alpha / comb n_groups 2 / 2) = Fin za
      \<and> ppf power' = Fin zp \<and> m = \<lceil>2 * variance * (za + zp)\<^sup>2 / delta\<^sup>2\<rceil>"
    by auto
qed

lemma proportion_returns:
  assumes "get_proportion_test_group_size_with_pairwise_correction ppf p1 p2 alpha power' n_groups
    = Inr m"
  shows "0 < p1" "p1 < 1" "0 < p2" "p2 < 1" "alpha < power'" "power' < 1" "2 \<le> n_groups"
    and "p1 \<noteq> p2"
    and "\<exists>za zp. ppf (1 - alpha / comb n_groups 2 / 2) = Fin za \<and> ppf power' = Fin zp
          \<and> m = \<lceil>((za * sqrt (2 * ((p1 + p2) / 2) * (1 - (p1 + p2) / 2))
                  + zp * sqrt (p1 * (1 - p1) + p2 * (1 - p2))) / \<bar>p2 - p1\<bar>)\<^sup>2\<rceil>"
proof -
  let ?A = "2 * ((p1 + p2) / 2) * (1 - (p1 + p2) / 2)" and ?B = "p1 * (1 - p1) + p2 * (1 - p2)"
  from assms show v: "0 < p1" "p1 < 1" "0 < p2" "p2 < 1" "alpha < power'" "power' < 1"
      "2 \<le> n_groups"
    by (auto simp: get_proportion_test_group_size_with_pairwise_correction_def split: if_splits)
  have A: "\<not> ?A < 0"
    using v(1-4) by (simp add: not_less zero_le_mult_iff)
  have B: "\<not> ?B < 0"
    using v(1-4) by (simp add: not_less)
  from assms v A B have "py_int (np_ceil (np_square (np_div
      (np_add (np_mul (ppf (1 - alpha / comb n_groups 2 / 2)) (Fin (sqrt ?A)))
              (np_mul (ppf power') (Fin (sqrt ?B))))
      (Fin \<bar>p2 - p1\<bar>)))) = Inr m"
    by (simp add: get_proportion_test_group_size_with_pairwise_correction_def Let_def
        np_sqrt_def np_abs_def)
  from py_int_ceil_Inr [OF this] obtain r where r: "np_square (np_div
      (np_add (np_mul (ppf (1 - alpha / comb n_groups 2 / 2)) (Fin (sqrt ?A)))
              (np_mul (ppf power') (Fin (sqrt ?B))))
      (Fin \<bar>p2 - p1\<bar>)) = Fin r" "m = \<lceil>r\<rceil>" by blast
  from np_square_Fin [OF r(1)] obtain q where q: "np_div
      (np_add (np_mul (ppf (1 - alpha / comb n_groups 2 / 2)) (Fin (sqrt ?A)))
              (np_mul (ppf power') (Fin (sqrt ?B))))
      (Fin \<bar>p2 - p1\<bar>) = Fin q" "r = q\<^sup>2" by blast
  from np_div_Fin [OF q(1)] obtain a where a:
      "np_add (np_mul (ppf (1 - alpha / comb n_groups 2 / 2)) (Fin (sqrt ?A)))
              (np_mul (ppf power') (Fin (sqrt ?B))) = Fin a"
      "\<bar>p2 - p1\<bar> \<noteq> 0" "q = a / \<bar>p2 - p1\<bar>" by blast
  from np_add_Fin [OF a(1)] obtain x y where xy:
      "np_mul (ppf (1 - alpha / comb n_groups 2 / 2)) (Fin (sqrt ?A)) = Fin x"
      "np_mul (ppf power') (Fin (sqrt ?B)) = Fin y" "a = x + y" by blast
  from np_mul_Fin [OF xy(1)] obtain za where za:
      "ppf (1 - alpha / comb n_groups 2 / 2) = Fin za" "x = za * sqrt ?A" by auto
  from np_mul_Fin [OF xy(2)] obtain zp where zp:
      "ppf power' = Fin zp" "y = zp * sqrt ?B" by auto
  from a(2) show "p1 \<noteq> p2" by auto
  from r(2) q(2) a(3) xy(3) za zp show "\<exists>za zp. ppf (1 - alpha / comb n_groups 2 / 2) = Fin za
      \<and> ppf power' = Fin zp
      \<and> m = \<lceil>((za * sqrt ?A + zp * sqrt ?B) / \<bar>p2 - p1\<bar>)\<^sup>2\<rceil>"
    by auto
qed

lemma t_test_zero_delta_fails:
  assumes "0 < variance" "0 < alpha" "alpha < 1" "alpha < power'" "power' < 1" "2 \<le> n_groups"
  shows "get_t_test_group_size_with_pairwise_correction ppf variance 0 alpha power' n_groups
    \<in> {Inl OverflowError, Inl ValueError}"
proof (cases "get_t_test_group_size_with_pairwise_correction ppf variance 0 alpha power' n_groups")
  case (Inl e)
  have "e \<noteq> AssertionError"
    using Inl t_test_asserts [of ppf variance 0 alpha power' n_groups] assms by auto
  with Inl show ?thesis by (cases e) simp_all
next
  case (Inr m)
  from t_test_returns(7) [OF Inr] show ?thesis by simp
qed

lemma Phi_less_iff: "Phi x < Phi y \<longleftrightarrow> x < y"
  using Phi_strict_mono [of x y] Phi_strict_mono [of y x] by (cases x y rule: linorder_cases) auto

lemma Phi_le_iff: "Phi x \<le> Phi y \<longleftrightarrow> x \<le> y"
  using Phi_less_iff [of y x] by (simp add: not_less [symmetric])

lemma quantile_signs:
  assumes "Phi za = 1 - a / 2" "Phi zp = pw" "0 < a" "a < 1" "a / 2 < pw"
  shows "0 < za" and "0 < za + zp"
proof -
  have "Phi 0 < Phi za" using assms(1,4) by (simp add: Phi_zero)
  then show "0 < za" by (simp only: Phi_less_iff)
  have "Phi (- za) < Phi zp" using assms(1,2,5) by (simp add: Phi_minus)
  then have "- za < zp" by (simp only: Phi_less_iff)
  then show "0 < za + zp" by simp
qed

lemma adjusted_alpha_bounds:
  assumes "0 < alpha" "alpha < 1" "2 \<le> n_groups"
  shows "0 < alpha / comb n_groups 2" and "alpha / comb n_groups 2 \<le> alpha"
proof -
  have c: "1 \<le> comb n_groups 2" by (rule comb_2_ge_1 [OF assms(3)])
  then show "0 < alpha / comb n_groups 2" using assms(1) by simp
  have "alpha / comb n_groups 2 \<le> alpha / 1"
    using c assms(1) by (intro divide_left_mono) auto
  then show "alpha / comb n_groups 2 \<le> alpha" by simp
qed

lemma t_test_quantile_sum:
  assumes "0 < alpha" "alpha < 1" "alpha < power'" "2 \<le> n_groups"
    and "quantile_at ppf (1 - alpha / comb n_groups 2 / 2)" "quantile_at ppf power'"
  shows "0 < Phi_inv (1 - alpha / comb n_groups 2 / 2)"
    and "0 < Phi_inv (1 - alpha / comb n_groups 2 / 2) + Phi_inv power'"
proof -
  note a = adjusted_alpha_bounds [OF assms(1,2,4)]
  have h: "alpha / comb n_groups 2 < 1" "alpha / comb n_groups 2 / 2 < power'"
    using a assms(1-3) by auto
  from quantile_signs [OF quantile_atD(2) [OF assms(5)] quantile_atD(2) [OF assms(6)] a(1) h]
  show "0 < Phi_inv (1 - alpha / comb n_groups 2 / 2)"
    and "0 < Phi_inv (1 - alpha / comb n_groups 2 / 2) + Phi_inv power'" .
qed

section \<open>Symmetries\<close>

text \<open>
  C10. The mean comparison depends on \<open>delta\<close> only through its square: the result for
  \<open>delta\<close> and for \<open>- delta\<close> is the same, whatever the other arguments are (in
  particular for valid arguments and a nonzero \<open>delta\<close>).
\<close>

theorem t_test_delta_sign:
  "get_t_test_group_size_with_pairwise_correction ppf variance (- delta) alpha power' n_groups
   = get_t_test_group_size_with_pairwise_correction ppf variance delta alpha power' n_groups"
  by (simp add: get_t_test_group_size_with_pairwise_correction_def)

text \<open>
  C7. The proportion comparison is symmetric in its two proportions: exchanging \<open>p1\<close> and
  \<open>p2\<close> gives the same result (the same error, or the same group size).
\<close>

theorem proportion_test_symmetric:
  "get_proportion_test_group_size_with_pairwise_correction ppf p1 p2 alpha power' n_groups
   = get_proportion_test_group_size_with_pairwise_correction ppf p2 p1 alpha power' n_groups"
proof -
  have a: "np_abs (p2 - p1) = np_abs (p1 - p2)"
    by (simp add: np_abs_def abs_minus_commute)
  have b: "(p1 + p2) / 2 = (p2 + p1) / 2"
    by (simp add: add.commute)
  have c: "p1 * (1 - p1) + p2 * (1 - p2) = p2 * (1 - p2) + p1 * (1 - p1)"
    by (simp add: add.commute)
  show ?thesis
    unfolding get_proportion_test_group_size_with_pairwise_correction_def a b c
    by auto
qed

section \<open>Error outcomes and the sign of the result\<close>

lemma proportion_sqrt_facts:
  assumes "0 < p1" "p1 < 1" "0 < p2" "p2 < 1"
  shows "0 < sqrt (p1 * (1 - p1) + p2 * (1 - p2))"
    and "sqrt (p1 * (1 - p1) + p2 * (1 - p2)) \<le> sqrt (2 * ((p1 + p2) / 2) * (1 - (p1 + p2) / 2))"
proof -
  have "0 < p1 * (1 - p1)" "0 < p2 * (1 - p2)"
    using assms by simp_all
  then show "0 < sqrt (p1 * (1 - p1) + p2 * (1 - p2))"
    by simp
  have "2 * ((p1 + p2) / 2) * (1 - (p1 + p2) / 2) - (p1 * (1 - p1) + p2 * (1 - p2)) = (p1 - p2)\<^sup>2 / 2"
    by (simp add: power2_eq_square field_simps)
  moreover have "0 \<le> (p1 - p2)\<^sup>2 / 2" by simp
  ultimately have "p1 * (1 - p1) + p2 * (1 - p2) \<le> 2 * ((p1 + p2) / 2) * (1 - (p1 + p2) / 2)"
    by linarith
  then show "sqrt (p1 * (1 - p1) + p2 * (1 - p2)) \<le> sqrt (2 * ((p1 + p2) / 2) * (1 - (p1 + p2) / 2))"
    by (simp only: real_sqrt_le_iff)
qed

lemma weighted_sum_pos:
  fixes za zp s1 s2 :: real
  assumes "0 < za" "0 < za + zp" "0 < s2" "s2 \<le> s1"
  shows "0 < za * s1 + zp * s2"
proof (cases "0 \<le> zp")
  case True
  have "0 < za * s1" using assms by (intro mult_pos_pos) auto
  moreover have "0 \<le> zp * s2" using True assms by (intro mult_nonneg_nonneg) auto
  ultimately show ?thesis by linarith
next
  case False
  then have "zp * s1 \<le> zp * s2"
    using assms(4) by (intro mult_left_mono_neg) auto
  moreover have "0 < (za + zp) * s1" using assms by (intro mult_pos_pos) auto
  ultimately show ?thesis by (simp add: algebra_simps)
qed

lemma proportion_numerator_pos:
  assumes "0 < p1" "p1 < 1" "0 < p2" "p2 < 1" "0 < za" "0 < za + zp"
  shows "0 < za * sqrt (2 * ((p1 + p2) / 2) * (1 - (p1 + p2) / 2))
           + zp * sqrt (p1 * (1 - p1) + p2 * (1 - p2))"
  by (rule weighted_sum_pos [OF assms(5,6) proportion_sqrt_facts [OF assms(1-4)]])

lemma comb_2_2: "comb 2 2 = 1"
  by (simp add: comb_def)

lemma comb_4_2: "comb 4 2 = 6"
  by (simp add: comb_def choose_two)

lemma q975': "quantile_at norm_ppf (1 - (5 / 100) / comb 2 2 / 2)"
  using q975 by (simp add: comb_2_2)

lemma q80': "quantile_at norm_ppf (8 / 10)"
  using q80 by simp

lemma q239': "quantile_at norm_ppf (1 - (5 / 100) / comb 4 2 / 2)"
  using q239 by (simp add: comb_4_2)

lemma z975_bounds: "1.95 < Phi_inv 0.975" "Phi_inv 0.975 < 1.962"
  using Phi_inv_between(2,3) [OF Phi_1950 Phi_1962] by simp_all

lemma z80_bounds: "0.835 < Phi_inv 0.8" "Phi_inv 0.8 < 0.844"
  using Phi_inv_between(2,3) [OF Phi_0835 Phi_0844] by simp_all

lemma z239_bounds: "2 < Phi_inv (239 / 240)" "Phi_inv (239 / 240) < 2.7"
  using Phi_inv_between(2,3) [OF Phi_2 Phi_27] by simp_all

lemma proportion_equal_p:
  assumes "0 < p" "p < 1" "alpha < power'" "power' < 1" "2 \<le> n_groups"
    and "ppf (1 - alpha / comb n_groups 2 / 2) = Fin za" "ppf power' = Fin zp"
    and "0 < za * sqrt (2 * ((p + p) / 2) * (1 - (p + p) / 2)) + zp * sqrt (p * (1 - p) + p * (1 - p))"
  shows "get_proportion_test_group_size_with_pairwise_correction ppf p p alpha power' n_groups
    = Inl OverflowError"
proof -
  have a: "\<not> 2 * ((p + p) / 2) * (1 - (p + p) / 2) < 0" "\<not> p * (1 - p) + p * (1 - p) < 0"
    using assms(1,2) by (simp_all add: not_less)
  show ?thesis
    using assms(1-7)
    by (simp only: get_proportion_test_group_size_with_pairwise_correction_def Let_def
        np_sqrt_def np_abs_def a assms(8) signed_inf_def if_True if_False simp_thms
        np_mul.simps np_add.simps np_div.simps np_square.simps np_ceil.simps py_int.simps
        diff_self abs_zero)
qed

lemma boundary_values_rejected:
  "get_t_test_group_size_with_pairwise_correction ppf 0 delta alpha power' n_groups = Inl AssertionError"
  "get_t_test_group_size_with_pairwise_correction ppf variance delta 0 power' n_groups = Inl AssertionError"
  "get_t_test_group_size_with_pairwise_correction ppf variance delta 1 power' n_groups = Inl AssertionError"
  "power' \<le> alpha \<Longrightarrow>
    get_t_test_group_size_with_pairwise_correction ppf variance delta alpha power' n_groups = Inl AssertionError"
  "get_t_test_group_size_with_pairwise_correction ppf variance delta alpha power' 1 = Inl AssertionError"
  "get_proportion_test_group_size_with_pairwise_correction ppf p1 p2 1 power' n_groups = Inl AssertionError"
  "power' \<le> alpha \<Longrightarrow>
    get_proportion_test_group_size_with_pairwise_correction ppf p1 p2 alpha power' n_groups = Inl AssertionError"
  "get_proportion_test_group_size_with_pairwise_correction ppf p1 p2 alpha power' 1 = Inl AssertionError"
  "get_proportion_test_group_size_with_pairwise_correction ppf 0 p2 alpha power' n_groups = Inl AssertionError"
  "get_proportion_test_group_size_with_pairwise_correction ppf 1 p2 alpha power' n_groups = Inl AssertionError"
  by (auto simp: t_test_asserts proportion_asserts)

text \<open>
  C3 (as amended). The mean comparison fails with \<open>AssertionError\<close> (the specification's
  InvalidParameter) if and only if \<open>variance \<le> 0\<close>, or \<open>alpha\<close> is not strictly
  between 0 and 1, or \<open>power\<close> is not strictly between \<open>alpha\<close> and 1, or
  \<open>n_groups < 2\<close>. The other inputs pass every assertion but need not return a value: with
  \<open>delta = 0\<close> the call fails with OverflowError or ValueError, whatever the library
  function returns.
\<close>

theorem t_test_errors:
  "(get_t_test_group_size_with_pairwise_correction ppf variance delta alpha power' n_groups
      = Inl AssertionError
    \<longleftrightarrow> variance \<le> 0 \<or> \<not> (0 < alpha \<and> alpha < 1) \<or> \<not> (alpha < power' \<and> power' < 1) \<or> n_groups < 2)
   \<and> (0 < variance \<and> 0 < alpha \<and> alpha < 1 \<and> alpha < power' \<and> power' < 1 \<and> 2 \<le> n_groups
      \<longrightarrow> get_t_test_group_size_with_pairwise_correction ppf variance 0 alpha power' n_groups
            \<in> {Inl OverflowError, Inl ValueError})"
proof (intro conjI impI)
  show "get_t_test_group_size_with_pairwise_correction ppf variance delta alpha power' n_groups
      = Inl AssertionError
    \<longleftrightarrow> variance \<le> 0 \<or> \<not> (0 < alpha \<and> alpha < 1) \<or> \<not> (alpha < power' \<and> power' < 1) \<or> n_groups < 2"
    unfolding t_test_asserts by auto
next
  assume "0 < variance \<and> 0 < alpha \<and> alpha < 1 \<and> alpha < power' \<and> power' < 1 \<and> 2 \<le> n_groups"
  then show "get_t_test_group_size_with_pairwise_correction ppf variance 0 alpha power' n_groups
      \<in> {Inl OverflowError, Inl ValueError}"
    by (intro t_test_zero_delta_fails) simp_all
qed

theorem t_test_errors_witness:
  "get_t_test_group_size_with_pairwise_correction norm_ppf 0 1 (5 / 100) (8 / 10) 2
     = Inl AssertionError
   \<and> get_t_test_group_size_with_pairwise_correction norm_ppf 4 1 (5 / 100) (8 / 10) 2
     \<noteq> Inl AssertionError
   \<and> get_t_test_group_size_with_pairwise_correction norm_ppf 4 0 (5 / 100) (8 / 10) 2
     \<in> {Inl OverflowError, Inl ValueError}"
  using t_test_errors [of norm_ppf 0 1 "5 / 100" "8 / 10" 2]
    t_test_errors [of norm_ppf 4 1 "5 / 100" "8 / 10" 2]
  by simp

text \<open>
  The claim as stated fails: with \<open>delta = 0\<close> and every assertion satisfied the quotient
  is an infinity and the conversion to \<open>int\<close> raises OverflowError instead of returning a
  value.
\<close>

theorem t_test_zero_delta_counterexample:
  "get_t_test_group_size_with_pairwise_correction norm_ppf 4 0 (5 / 100) (8 / 10) 2
    = Inl OverflowError"
proof -
  have "Phi_inv (1 - (5 / 100) / comb 2 2 / 2) + Phi_inv (8 / 10) \<noteq> 0"
    using z975_bounds(1) z80_bounds(1) by (simp add: comb_2_2)
  from t_test_zero_delta [of 4 "5 / 100" "8 / 10" 2 norm_ppf, OF _ _ _ _ _ _
      quantile_atD(1) [OF q975'] quantile_atD(1) [OF q80'] this]
  show ?thesis by simp
qed

text \<open>
  C9. The mean comparison does not validate \<open>delta\<close>: whether the call fails with
  \<open>AssertionError\<close> does not depend on \<open>delta\<close>; with the other arguments valid no \<open>delta\<close>
  gives \<open>AssertionError\<close>, and \<open>delta = 0\<close> reaches the division by \<open>delta\<^sup>2 = 0\<close>, whose
  infinity or NaN makes the conversion to \<open>int\<close> fail with OverflowError or ValueError; a call
  that returns a value has \<open>delta \<noteq> 0\<close>.
\<close>

theorem t_test_delta_unchecked:
  "(get_t_test_group_size_with_pairwise_correction ppf variance delta alpha power' n_groups
        = Inl AssertionError
      \<longleftrightarrow> get_t_test_group_size_with_pairwise_correction ppf variance delta' alpha power' n_groups
        = Inl AssertionError)
   \<and> (0 < variance \<and> 0 < alpha \<and> alpha < 1 \<and> alpha < power' \<and> power' < 1 \<and> 2 \<le> n_groups
      \<longrightarrow> get_t_test_group_size_with_pairwise_correction ppf variance delta alpha power' n_groups
            \<noteq> Inl AssertionError
        \<and> get_t_test_group_size_with_pairwise_correction ppf variance 0 alpha power' n_groups
            \<in> {Inl OverflowError, Inl ValueError})
   \<and> (get_t_test_group_size_with_pairwise_correction ppf variance delta alpha power' n_groups = Inr n
      \<longrightarrow> delta \<noteq> 0)"
proof (intro conjI impI)
  show "get_t_test_group_size_with_pairwise_correction ppf variance delta alpha power' n_groups
        = Inl AssertionError
      \<longleftrightarrow> get_t_test_group_size_with_pairwise_correction ppf variance delta' alpha power' n_groups
        = Inl AssertionError"
    by (simp only: t_test_asserts)
next
  assume "0 < variance \<and> 0 < alpha \<and> alpha < 1 \<and> alpha < power' \<and> power' < 1 \<and> 2 \<le> n_groups"
  then show "get_t_test_group_size_with_pairwise_correction ppf variance delta alpha power' n_groups
      \<noteq> Inl AssertionError"
    unfolding t_test_asserts by auto
next
  assume "0 < variance \<and> 0 < alpha \<and> alpha < 1 \<and> alpha < power' \<and> power' < 1 \<and> 2 \<le> n_groups"
  then show "get_t_test_group_size_with_pairwise_correction ppf variance 0 alpha power' n_groups
      \<in> {Inl OverflowError, Inl ValueError}"
    by (intro t_test_zero_delta_fails) simp_all
next
  assume "get_t_test_group_size_with_pairwise_correction ppf variance delta alpha power' n_groups
      = Inr n"
  then show "delta \<noteq> 0" by (rule t_test_returns(7))
qed

theorem t_test_delta_unchecked_witness:
  "get_t_test_group_size_with_pairwise_correction norm_ppf 4 0 (5 / 100) (8 / 10) 2
      \<noteq> Inl AssertionError
   \<and> get_t_test_group_size_with_pairwise_correction norm_ppf 4 0 (5 / 100) (8 / 10) 2
      \<in> {Inl OverflowError, Inl ValueError}
   \<and> (\<exists>n. get_t_test_group_size_with_pairwise_correction norm_ppf 4 1 (5 / 100) (8 / 10) 2 = Inr n
        \<and> (1 :: real) \<noteq> 0)"
proof -
  have v: "get_t_test_group_size_with_pairwise_correction norm_ppf 4 1 (5 / 100) (8 / 10) 2
      = Inr \<lceil>2 * 4 * (Phi_inv (1 - (5 / 100) / comb 2 2 / 2) + Phi_inv (8 / 10))\<^sup>2 / 1\<^sup>2\<rceil>"
    by (rule t_test_value [OF _ _ _ _ _ _ quantile_atD(1) [OF q975'] quantile_atD(1) [OF q80']])
      simp_all
  from t_test_delta_unchecked [of norm_ppf 4 1 "5 / 100" "8 / 10" 2, THEN conjunct2,
      THEN conjunct2, rule_format, OF v]
  have d: "(1 :: real) \<noteq> 0" .
  from t_test_delta_unchecked [of norm_ppf 4 0 "5 / 100" "8 / 10" 2, THEN conjunct2,
      THEN conjunct1]
  have e: "get_t_test_group_size_with_pairwise_correction norm_ppf 4 0 (5 / 100) (8 / 10) 2
        \<noteq> Inl AssertionError
      \<and> get_t_test_group_size_with_pairwise_correction norm_ppf 4 0 (5 / 100) (8 / 10) 2
        \<in> {Inl OverflowError, Inl ValueError}"
    by simp
  from e v d show ?thesis by blast
qed

text \<open>
  C4. The boundary values are rejected by an assertion (\<open>boundary_values_rejected\<close>),
  except \<open>alpha = 0\<close> in the proportion comparison, which has no assertion on
  \<open>alpha\<close>: the call passes all four assertions, \<open>norm.ppf(1)\<close> is an infinity, and the
  conversion to \<open>int\<close> raises OverflowError, not \<open>AssertionError\<close>.
\<close>

theorem proportion_alpha_zero_not_rejected:
  "get_proportion_test_group_size_with_pairwise_correction norm_ppf (1 / 10) (2 / 10) 0 (8 / 10) 2
    = Inl OverflowError"
  by (simp add: get_proportion_test_group_size_with_pairwise_correction_def Let_def norm_ppf_def
      np_sqrt_def np_abs_def signed_inf_def)

text \<open>
  C5 (as amended). Inputs that satisfy the stated preconditions pass every assertion, and
  whenever one of the two functions returns a value, that integer is not negative. A value
  need not be returned (see the counterexample below), and 0 is not excluded: in binary64
  the quotient of the mean comparison can underflow to 0.
\<close>

theorem group_size_nonnegative:
  "(0 < variance \<and> 0 < alpha \<and> alpha < 1 \<and> alpha < power' \<and> power' < 1 \<and> 2 \<le> n_groups
      \<longrightarrow> get_t_test_group_size_with_pairwise_correction ppf variance delta alpha power' n_groups
            \<noteq> Inl AssertionError)
   \<and> (get_t_test_group_size_with_pairwise_correction ppf variance delta alpha power' n_groups = Inr n
      \<longrightarrow> 0 \<le> n)
   \<and> (0 < p1 \<and> p1 < 1 \<and> 0 < p2 \<and> p2 < 1 \<and> alpha < power' \<and> power' < 1 \<and> 2 \<le> n_groups
      \<longrightarrow> get_proportion_test_group_size_with_pairwise_correction ppf p1 p2 alpha power' n_groups
            \<noteq> Inl AssertionError)
   \<and> (get_proportion_test_group_size_with_pairwise_correction ppf p1 p2 alpha power' n_groups = Inr m
      \<longrightarrow> 0 \<le> m)"
proof (intro conjI impI)
  assume "0 < variance \<and> 0 < alpha \<and> alpha < 1 \<and> alpha < power' \<and> power' < 1 \<and> 2 \<le> n_groups"
  then show "get_t_test_group_size_with_pairwise_correction ppf variance delta alpha power' n_groups
      \<noteq> Inl AssertionError"
    unfolding t_test_asserts by auto
next
  assume r: "get_t_test_group_size_with_pairwise_correction ppf variance delta alpha power' n_groups
    = Inr n"
  from t_test_returns(8) [OF r] obtain za zp where
    n: "n = \<lceil>2 * variance * (za + zp)\<^sup>2 / delta\<^sup>2\<rceil>" by blast
  have "0 \<le> 2 * variance * (za + zp)\<^sup>2 / delta\<^sup>2"
    using t_test_returns(1) [OF r] by simp
  then have "\<lceil>0 :: real\<rceil> \<le> \<lceil>2 * variance * (za + zp)\<^sup>2 / delta\<^sup>2\<rceil>" by (rule ceiling_mono)
  then show "0 \<le> n" unfolding n by simp
next
  assume "0 < p1 \<and> p1 < 1 \<and> 0 < p2 \<and> p2 < 1 \<and> alpha < power' \<and> power' < 1 \<and> 2 \<le> n_groups"
  then show "get_proportion_test_group_size_with_pairwise_correction ppf p1 p2 alpha power' n_groups
      \<noteq> Inl AssertionError"
    unfolding proportion_asserts by auto
next
  assume r: "get_proportion_test_group_size_with_pairwise_correction ppf p1 p2 alpha power' n_groups
    = Inr m"
  from proportion_returns(9) [OF r] obtain x :: real where m: "m = \<lceil>x\<^sup>2\<rceil>" by blast
  have "0 \<le> x\<^sup>2" by simp
  then have "\<lceil>0 :: real\<rceil> \<le> \<lceil>x\<^sup>2\<rceil>" by (rule ceiling_mono)
  then show "0 \<le> m" unfolding m by simp
qed

theorem group_size_nonnegative_witness:
  "get_t_test_group_size_with_pairwise_correction norm_ppf 4 1 (5 / 100) (8 / 10) 2
      \<noteq> Inl AssertionError
   \<and> (\<exists>n. get_t_test_group_size_with_pairwise_correction norm_ppf 4 1 (5 / 100) (8 / 10) 2 = Inr n
        \<and> 0 \<le> n)
   \<and> get_proportion_test_group_size_with_pairwise_correction norm_ppf
        (1 / 10) (2 / 10) (5 / 100) (8 / 10) 2 \<noteq> Inl AssertionError
   \<and> (\<exists>m. get_proportion_test_group_size_with_pairwise_correction norm_ppf
        (1 / 10) (2 / 10) (5 / 100) (8 / 10) 2 = Inr m \<and> 0 \<le> m)"
proof -
  let ?za = "Phi_inv (1 - (5 / 100) / comb 2 2 / 2)" and ?zp = "Phi_inv (8 / 10)"
  let ?s1 = "sqrt (2 * ((1 / 10 + 2 / 10) / 2) * (1 - (1 / 10 + 2 / 10) / 2))"
  let ?s2 = "sqrt (1 / 10 * (1 - 1 / 10) + 2 / 10 * (1 - 2 / 10))"
  note fa = quantile_atD(1) [OF q975'] and fp = quantile_atD(1) [OF q80']
  have a: "get_t_test_group_size_with_pairwise_correction norm_ppf 4 1 (5 / 100) (8 / 10) 2
      = Inr \<lceil>2 * 4 * (?za + ?zp)\<^sup>2 / 1\<^sup>2\<rceil>"
    by (rule t_test_value [OF _ _ _ _ _ _ fa fp]) simp_all
  have b: "get_proportion_test_group_size_with_pairwise_correction norm_ppf
      (1 / 10) (2 / 10) (5 / 100) (8 / 10) 2
      = Inr \<lceil>((?za * ?s1 + ?zp * ?s2) / \<bar>2 / 10 - 1 / 10\<bar>)\<^sup>2\<rceil>"
    by (rule proportion_value [OF _ _ _ _ _ _ _ fa fp]) simp_all
  note g = group_size_nonnegative [where ppf = norm_ppf and variance = 4 and delta = 1
      and alpha = "5 / 100" and power' = "8 / 10" and n_groups = 2
      and ?p1.0 = "1 / 10" and ?p2.0 = "2 / 10"]
  from g [THEN conjunct1]
  have c1: "get_t_test_group_size_with_pairwise_correction norm_ppf 4 1 (5 / 100) (8 / 10) 2
      \<noteq> Inl AssertionError" by simp
  from g [THEN conjunct2, THEN conjunct1, rule_format, OF a]
  have c2: "0 \<le> \<lceil>2 * 4 * (?za + ?zp)\<^sup>2 / 1\<^sup>2\<rceil>" .
  from g [THEN conjunct2, THEN conjunct2, THEN conjunct1]
  have c3: "get_proportion_test_group_size_with_pairwise_correction norm_ppf
      (1 / 10) (2 / 10) (5 / 100) (8 / 10) 2 \<noteq> Inl AssertionError" by simp
  from g [THEN conjunct2, THEN conjunct2, THEN conjunct2, rule_format, OF b]
  have c4: "0 \<le> \<lceil>((?za * ?s1 + ?zp * ?s2) / \<bar>2 / 10 - 1 / 10\<bar>)\<^sup>2\<rceil>" .
  from c1 c2 c3 c4 a b show ?thesis by blast
qed

text \<open>
  The claim as stated fails: equal proportions satisfy every assertion, the divisor
  \<open>|p2 - p1|\<close> is zero and the call raises OverflowError instead of returning a value.
\<close>

theorem proportion_equal_counterexample:
  "get_proportion_test_group_size_with_pairwise_correction norm_ppf (1 / 2) (1 / 2) (5 / 100) (8 / 10) 2
    = Inl OverflowError"
proof -
  have s: "0 < Phi_inv (1 - (5 / 100) / comb 2 2 / 2)"
      "0 < Phi_inv (1 - (5 / 100) / comb 2 2 / 2) + Phi_inv (8 / 10)"
    using t_test_quantile_sum [of "5 / 100" "8 / 10" 2 norm_ppf, OF _ _ _ _ q975' q80'] by simp_all
  have "0 < Phi_inv (1 - (5 / 100) / comb 2 2 / 2) * sqrt (2 * ((1 / 2 + 1 / 2) / 2) * (1 - (1 / 2 + 1 / 2) / 2))
      + Phi_inv (8 / 10) * sqrt (1 / 2 * (1 - 1 / 2) + 1 / 2 * (1 - 1 / 2))"
    by (rule proportion_numerator_pos [OF _ _ _ _ s]) simp_all
  from proportion_equal_p [of "1 / 2" "5 / 100" "8 / 10" 2 norm_ppf, OF _ _ _ _ _
      quantile_atD(1) [OF q975'] quantile_atD(1) [OF q80'] this]
  show ?thesis by simp
qed

section \<open>The concrete scenarios\<close>

lemma square_between:
  fixes s :: real
  assumes "0 \<le> a" "a < s" "s < b"
  shows "a\<^sup>2 < s\<^sup>2" and "s\<^sup>2 < b\<^sup>2"
  using assms by (auto intro!: power_strict_mono)

text \<open>
  C8. With \<open>variance = 4\<close>, \<open>delta = 1\<close>, \<open>alpha = 0.05\<close> and \<open>power = 0.8\<close> the mean comparison
  returns exactly 63 for two groups, and a value strictly greater than 63 for four groups
  (with \<open>norm.ppf\<close> the exact normal quantile).
\<close>

theorem scenario_group_sizes:
  "get_t_test_group_size_with_pairwise_correction norm_ppf 4 1 (5 / 100) (8 / 10) 2 = Inr 63
   \<and> (\<exists>m. get_t_test_group_size_with_pairwise_correction norm_ppf 4 1 (5 / 100) (8 / 10) 4 = Inr m
        \<and> 63 < m)"
proof -
  let ?zp = "Phi_inv (8 / 10)"
  let ?z2 = "Phi_inv (1 - (5 / 100) / comb 2 2 / 2)"
  let ?z4 = "Phi_inv (1 - (5 / 100) / comb 4 2 / 2)"
  have zp: "0.835 < ?zp" "?zp < 0.844"
    using z80_bounds by simp_all
  have z2: "1.95 < ?z2" "?z2 < 1.962"
    using z975_bounds by (simp_all add: comb_2_2)
  have z4: "2 < ?z4"
    using z239_bounds(1) by (simp add: comb_4_2)
  have v2: "get_t_test_group_size_with_pairwise_correction norm_ppf 4 1 (5 / 100) (8 / 10) 2
      = Inr \<lceil>2 * 4 * (?z2 + ?zp)\<^sup>2 / 1\<^sup>2\<rceil>"
    by (rule t_test_value [OF _ _ _ _ _ _ quantile_atD(1) [OF q975'] quantile_atD(1) [OF q80']])
      simp_all
  have v4: "get_t_test_group_size_with_pairwise_correction norm_ppf 4 1 (5 / 100) (8 / 10) 4
      = Inr \<lceil>2 * 4 * (?z4 + ?zp)\<^sup>2 / 1\<^sup>2\<rceil>"
    by (rule t_test_value [OF _ _ _ _ _ _ quantile_atD(1) [OF q239'] quantile_atD(1) [OF q80']])
      simp_all
  have s2: "2.785 < ?z2 + ?zp" "?z2 + ?zp < 2.806"
    using zp z2 by simp_all
  have "(2.785::real)\<^sup>2 < (?z2 + ?zp)\<^sup>2" "(?z2 + ?zp)\<^sup>2 < (2.806::real)\<^sup>2"
    using square_between [OF _ s2] by simp_all
  then have "62 < 2 * 4 * (?z2 + ?zp)\<^sup>2 / 1\<^sup>2" "2 * 4 * (?z2 + ?zp)\<^sup>2 / 1\<^sup>2 \<le> 63"
    by (simp_all add: power2_eq_square)
  then have c2: "\<lceil>2 * 4 * (?z2 + ?zp)\<^sup>2 / 1\<^sup>2\<rceil> = 63"
    by (intro ceiling_unique) simp_all
  have s4: "2.835 < ?z4 + ?zp"
    using zp z4 by simp
  have "(2.835::real)\<^sup>2 < (?z4 + ?zp)\<^sup>2"
    using square_between(1) [OF _ s4, of "?z4 + ?zp + 1"] by simp
  then have "63 < 2 * 4 * (?z4 + ?zp)\<^sup>2 / 1\<^sup>2"
    by (simp add: power2_eq_square)
  then have c4: "63 < \<lceil>2 * 4 * (?z4 + ?zp)\<^sup>2 / 1\<^sup>2\<rceil>"
    by (simp only: less_ceiling_iff of_int_numeral)
  from v2 c2 v4 c4 show ?thesis by simp
qed

section \<open>Monotonicity\<close>

text \<open>
  The order of two returned values. The quantiles enter as the values \<open>ppf\<close> has returned,
  so that nothing is assumed about the library function beyond the order of these values.
\<close>

lemma quantile_mono:
  assumes "quantile_at ppf p" "quantile_at ppf q" "p \<le> q"
  shows "Phi_inv p \<le> Phi_inv q"
proof -
  have "Phi (Phi_inv p) \<le> Phi (Phi_inv q)"
    using quantile_atD(2) [OF assms(1)] quantile_atD(2) [OF assms(2)] assms(3) by simp
  then show ?thesis by (simp only: Phi_le_iff)
qed

lemma quantile_nonneg:
  assumes "quantile_at ppf p" "1 / 2 \<le> p"
  shows "0 \<le> Phi_inv p"
proof -
  have "Phi 0 \<le> Phi (Phi_inv p)"
    using quantile_atD(2) [OF assms(1)] assms(2) by (simp add: Phi_zero)
  then show ?thesis by (simp only: Phi_le_iff)
qed

lemma adjusted_alpha_antimono:
  assumes "0 < alpha" "2 \<le> n" "n \<le> n'"
  shows "1 - alpha / comb n 2 / 2 \<le> 1 - alpha / comb n' 2 / 2"
proof -
  have "0 < comb n 2" using comb_2_ge_1 [OF assms(2)] by simp
  moreover have "comb n 2 \<le> comb n' 2" by (rule comb_2_mono [OF assms(2,3)])
  ultimately have "alpha / comb n' 2 \<le> alpha / comb n 2"
    using assms(1) by (intro divide_left_mono) (auto intro: mult_pos_pos)
  then show ?thesis by simp
qed

lemma t_test_size_le:
  fixes variance delta s s' :: real
  assumes "0 < variance" "0 \<le> s" "s \<le> s'"
  shows "\<lceil>2 * variance * s\<^sup>2 / delta\<^sup>2\<rceil> \<le> \<lceil>2 * variance * s'\<^sup>2 / delta\<^sup>2\<rceil>"
proof -
  have "s\<^sup>2 \<le> s'\<^sup>2" using assms(3,2) by (rule power_mono)
  then have "2 * variance * s\<^sup>2 \<le> 2 * variance * s'\<^sup>2"
    using assms(1) by simp
  then have "2 * variance * s\<^sup>2 / delta\<^sup>2 \<le> 2 * variance * s'\<^sup>2 / delta\<^sup>2"
    by (rule divide_right_mono) simp
  then show ?thesis by (rule ceiling_mono)
qed

lemma proportion_size_le:
  fixes x y :: real
  assumes "0 \<le> x" "x \<le> y"
  shows "\<lceil>x\<^sup>2\<rceil> \<le> \<lceil>y\<^sup>2\<rceil>"
  using assms by (intro ceiling_mono power_mono)

lemma proportion_numerator_mono:
  fixes za za' zp zp' s1 s2 :: real
  assumes "za \<le> za'" "zp \<le> zp'" "0 \<le> s1" "0 \<le> s2"
  shows "za * s1 + zp * s2 \<le> za' * s1 + zp' * s2"
  using assms by (intro add_mono mult_right_mono)

lemma t_test_delta_le:
  assumes r: "get_t_test_group_size_with_pairwise_correction ppf variance delta alpha power' n_groups
      = Inr n"
    and r': "get_t_test_group_size_with_pairwise_correction ppf variance delta' alpha power' n_groups
      = Inr n'"
    and d: "\<bar>delta\<bar> \<le> \<bar>delta'\<bar>"
  shows "n' \<le> n"
proof -
  from t_test_returns(8) [OF r] obtain za zp where
    z: "ppf (1 - alpha / comb n_groups 2 / 2) = Fin za" "ppf power' = Fin zp"
    and n: "n = \<lceil>2 * variance * (za + zp)\<^sup>2 / delta\<^sup>2\<rceil>" by blast
  from t_test_returns(8) [OF r'] z have
    n': "n' = \<lceil>2 * variance * (za + zp)\<^sup>2 / delta'\<^sup>2\<rceil>" by auto
  have v: "0 < variance" by (rule t_test_returns(1) [OF r])
  have "delta \<noteq> 0" by (rule t_test_returns(7) [OF r])
  then have d0: "0 < delta\<^sup>2" by (rule iffD2 [OF zero_less_power2])
  have dd: "delta\<^sup>2 \<le> delta'\<^sup>2" using d by (simp only: abs_le_square_iff)
  have d0': "0 < delta'\<^sup>2" using d0 dd by (rule less_le_trans)
  have "0 \<le> 2 * variance * (za + zp)\<^sup>2" using v by simp
  then have "2 * variance * (za + zp)\<^sup>2 / delta'\<^sup>2 \<le> 2 * variance * (za + zp)\<^sup>2 / delta\<^sup>2"
    using dd d0 d0' by (intro divide_left_mono mult_pos_pos)
  then show ?thesis unfolding n n' by (rule ceiling_mono)
qed

lemma t_test_quantile_le:
  assumes r: "get_t_test_group_size_with_pairwise_correction ppf variance delta alpha power' n_groups
      = Inr n"
    and r': "get_t_test_group_size_with_pairwise_correction ppf variance delta alpha power'' n_groups'
      = Inr n'"
    and z: "ppf (1 - alpha / comb n_groups 2 / 2) = Fin za" "ppf power' = Fin zp"
    and z': "ppf (1 - alpha / comb n_groups' 2 / 2) = Fin za'" "ppf power'' = Fin zp'"
    and s: "0 \<le> za + zp" "za \<le> za'" "zp \<le> zp'"
  shows "n \<le> n'"
proof -
  from t_test_returns(8) [OF r] z have
    n: "n = \<lceil>2 * variance * (za + zp)\<^sup>2 / delta\<^sup>2\<rceil>" by auto
  from t_test_returns(8) [OF r'] z' have
    n': "n' = \<lceil>2 * variance * (za' + zp')\<^sup>2 / delta\<^sup>2\<rceil>" by auto
  have "za + zp \<le> za' + zp'" using s(2,3) by (rule add_mono)
  with t_test_returns(1) [OF r] s(1) show ?thesis
    unfolding n n' by (rule t_test_size_le)
qed

lemma proportion_quantile_le:
  assumes r: "get_proportion_test_group_size_with_pairwise_correction ppf p1 p2 alpha power' n_groups
      = Inr n"
    and r': "get_proportion_test_group_size_with_pairwise_correction ppf p1 p2 alpha power'' n_groups'
      = Inr n'"
    and z: "ppf (1 - alpha / comb n_groups 2 / 2) = Fin za" "ppf power' = Fin zp"
    and z': "ppf (1 - alpha / comb n_groups' 2 / 2) = Fin za'" "ppf power'' = Fin zp'"
    and s: "0 \<le> za" "0 \<le> zp" "za \<le> za'" "zp \<le> zp'"
  shows "n \<le> n'"
proof -
  let ?s1 = "sqrt (2 * ((p1 + p2) / 2) * (1 - (p1 + p2) / 2))"
  let ?s2 = "sqrt (p1 * (1 - p1) + p2 * (1 - p2))"
  from proportion_returns(9) [OF r] z have
    n: "n = \<lceil>((za * ?s1 + zp * ?s2) / \<bar>p2 - p1\<bar>)\<^sup>2\<rceil>" by auto
  from proportion_returns(9) [OF r'] z' have
    n': "n' = \<lceil>((za' * ?s1 + zp' * ?s2) / \<bar>p2 - p1\<bar>)\<^sup>2\<rceil>" by auto
  have s1: "0 \<le> ?s1" and s2: "0 \<le> ?s2"
    using proportion_sqrt_facts [OF proportion_returns(1-4) [OF r]] by simp_all
  have "0 \<le> za * ?s1 + zp * ?s2"
    using s(1,2) s1 s2 by (intro add_nonneg_nonneg mult_nonneg_nonneg)
  then have lo: "0 \<le> (za * ?s1 + zp * ?s2) / \<bar>p2 - p1\<bar>" by simp
  have "za * ?s1 + zp * ?s2 \<le> za' * ?s1 + zp' * ?s2"
    by (rule proportion_numerator_mono [OF s(3,4) s1 s2])
  then have "(za * ?s1 + zp * ?s2) / \<bar>p2 - p1\<bar> \<le> (za' * ?s1 + zp' * ?s2) / \<bar>p2 - p1\<bar>"
    by (rule divide_right_mono) simp
  with lo show ?thesis unfolding n n' by (rule proportion_size_le)
qed

lemma q975'': "quantile_at norm_ppf (975 / 1000)"
  using q975 by simp

lemma weighted_sum_less:
  fixes za zp s1 s2 :: real
  assumes "0 \<le> za" "za < a" "0 \<le> s1" "s1 < b" "0 \<le> zp" "zp < c" "0 \<le> s2" "s2 < d"
  shows "za * s1 + zp * s2 < a * b + c * d"
proof -
  have "za * s1 < a * b"
    using assms(1-4) by (intro mult_strict_mono') auto
  moreover have "zp * s2 < c * d"
    using assms(5-8) by (intro mult_strict_mono') auto
  ultimately show ?thesis by (rule add_strict_mono)
qed

text \<open>
  C6 (as amended). Whenever both calls return a value, with the other arguments fixed:
  in the mean comparison a larger \<open>|delta|\<close> gives a group size at most as large; in both
  functions the group size does not decrease when the quantile returned for \<open>power\<close>, or
  the quantile returned for the adjusted level, does not decrease. A larger \<open>power\<close> and a
  larger \<open>n_groups\<close> call \<open>ppf\<close> with a larger argument (\<open>adjusted_alpha_antimono\<close>), and the
  exact quantile is monotone (\<open>quantile_mono\<close>). The mean comparison needs a non-negative sum of
  the two quantiles, the proportion comparison two non-negative quantiles (for the exact
  quantile: \<open>power \<ge> 1/2\<close>, \<open>quantile_nonneg\<close>). Nothing is stated for \<open>|p2 - p1|\<close>: see the
  counterexample below.
\<close>

theorem group_size_monotone:
  "(get_t_test_group_size_with_pairwise_correction ppf variance delta alpha power' n_groups = Inr n
      \<longrightarrow> get_t_test_group_size_with_pairwise_correction ppf variance delta' alpha power' n_groups = Inr n'
      \<longrightarrow> \<bar>delta\<bar> \<le> \<bar>delta'\<bar> \<longrightarrow> n' \<le> n)
   \<and> (get_t_test_group_size_with_pairwise_correction ppf variance delta alpha power' n_groups = Inr n
      \<longrightarrow> get_t_test_group_size_with_pairwise_correction ppf variance delta alpha power'' n_groups = Inr n'
      \<longrightarrow> ppf (1 - alpha / comb n_groups 2 / 2) = Fin za
      \<longrightarrow> ppf power' = Fin zp \<longrightarrow> ppf power'' = Fin zp'
      \<longrightarrow> 0 \<le> za + zp \<longrightarrow> zp \<le> zp' \<longrightarrow> n \<le> n')
   \<and> (get_t_test_group_size_with_pairwise_correction ppf variance delta alpha power' n_groups = Inr n
      \<longrightarrow> get_t_test_group_size_with_pairwise_correction ppf variance delta alpha power' n_groups' = Inr n'
      \<longrightarrow> ppf (1 - alpha / comb n_groups 2 / 2) = Fin za
      \<longrightarrow> ppf (1 - alpha / comb n_groups' 2 / 2) = Fin za'
      \<longrightarrow> ppf power' = Fin zp
      \<longrightarrow> 0 \<le> za + zp \<longrightarrow> za \<le> za' \<longrightarrow> n \<le> n')
   \<and> (get_proportion_test_group_size_with_pairwise_correction ppf p1 p2 alpha power' n_groups = Inr m
      \<longrightarrow> get_proportion_test_group_size_with_pairwise_correction ppf p1 p2 alpha power'' n_groups = Inr m'
      \<longrightarrow> ppf (1 - alpha / comb n_groups 2 / 2) = Fin za
      \<longrightarrow> ppf power' = Fin zp \<longrightarrow> ppf power'' = Fin zp'
      \<longrightarrow> 0 \<le> za \<longrightarrow> 0 \<le> zp \<longrightarrow> zp \<le> zp' \<longrightarrow> m \<le> m')
   \<and> (get_proportion_test_group_size_with_pairwise_correction ppf p1 p2 alpha power' n_groups = Inr m
      \<longrightarrow> get_proportion_test_group_size_with_pairwise_correction ppf p1 p2 alpha power' n_groups' = Inr m'
      \<longrightarrow> ppf (1 - alpha / comb n_groups 2 / 2) = Fin za
      \<longrightarrow> ppf (1 - alpha / comb n_groups' 2 / 2) = Fin za'
      \<longrightarrow> ppf power' = Fin zp
      \<longrightarrow> 0 \<le> za \<longrightarrow> 0 \<le> zp \<longrightarrow> za \<le> za' \<longrightarrow> m \<le> m')"
proof (intro conjI impI)
  assume "get_t_test_group_size_with_pairwise_correction ppf variance delta alpha power' n_groups = Inr n"
    "get_t_test_group_size_with_pairwise_correction ppf variance delta' alpha power' n_groups = Inr n'"
    "\<bar>delta\<bar> \<le> \<bar>delta'\<bar>"
  then show "n' \<le> n" by (rule t_test_delta_le)
next
  assume "get_t_test_group_size_with_pairwise_correction ppf variance delta alpha power' n_groups = Inr n"
    "get_t_test_group_size_with_pairwise_correction ppf variance delta alpha power'' n_groups = Inr n'"
    "ppf (1 - alpha / comb n_groups 2 / 2) = Fin za" "ppf power' = Fin zp" "ppf power'' = Fin zp'"
    "0 \<le> za + zp" "zp \<le> zp'"
  then show "n \<le> n'"
    by (intro t_test_quantile_le [of ppf variance delta alpha power' n_groups n power'' n_groups n'
          za zp za zp']) simp_all
next
  assume "get_t_test_group_size_with_pairwise_correction ppf variance delta alpha power' n_groups = Inr n"
    "get_t_test_group_size_with_pairwise_correction ppf variance delta alpha power' n_groups' = Inr n'"
    "ppf (1 - alpha / comb n_groups 2 / 2) = Fin za"
    "ppf (1 - alpha / comb n_groups' 2 / 2) = Fin za'" "ppf power' = Fin zp"
    "0 \<le> za + zp" "za \<le> za'"
  then show "n \<le> n'"
    by (intro t_test_quantile_le [of ppf variance delta alpha power' n_groups n power' n_groups' n'
          za zp za' zp]) simp_all
next
  assume "get_proportion_test_group_size_with_pairwise_correction ppf p1 p2 alpha power' n_groups = Inr m"
    "get_proportion_test_group_size_with_pairwise_correction ppf p1 p2 alpha power'' n_groups = Inr m'"
    "ppf (1 - alpha / comb n_groups 2 / 2) = Fin za" "ppf power' = Fin zp" "ppf power'' = Fin zp'"
    "0 \<le> za" "0 \<le> zp" "zp \<le> zp'"
  then show "m \<le> m'"
    by (intro proportion_quantile_le [of ppf p1 p2 alpha power' n_groups m power'' n_groups m'
          za zp za zp']) simp_all
next
  assume "get_proportion_test_group_size_with_pairwise_correction ppf p1 p2 alpha power' n_groups = Inr m"
    "get_proportion_test_group_size_with_pairwise_correction ppf p1 p2 alpha power' n_groups' = Inr m'"
    "ppf (1 - alpha / comb n_groups 2 / 2) = Fin za"
    "ppf (1 - alpha / comb n_groups' 2 / 2) = Fin za'" "ppf power' = Fin zp"
    "0 \<le> za" "0 \<le> zp" "za \<le> za'"
  then show "m \<le> m'"
    by (intro proportion_quantile_le [of ppf p1 p2 alpha power' n_groups m power' n_groups' m'
          za zp za' zp]) simp_all
qed

theorem group_size_monotone_witness:
  "(\<exists>n n'. get_t_test_group_size_with_pairwise_correction norm_ppf 4 1 (5 / 100) (8 / 10) 2 = Inr n
      \<and> get_t_test_group_size_with_pairwise_correction norm_ppf 4 2 (5 / 100) (8 / 10) 2 = Inr n'
      \<and> n' \<le> n)
   \<and> (\<exists>n n'. get_t_test_group_size_with_pairwise_correction norm_ppf 4 1 (5 / 100) (8 / 10) 2 = Inr n
      \<and> get_t_test_group_size_with_pairwise_correction norm_ppf 4 1 (5 / 100) (975 / 1000) 2 = Inr n'
      \<and> n \<le> n')
   \<and> (\<exists>n n'. get_t_test_group_size_with_pairwise_correction norm_ppf 4 1 (5 / 100) (8 / 10) 2 = Inr n
      \<and> get_t_test_group_size_with_pairwise_correction norm_ppf 4 1 (5 / 100) (8 / 10) 4 = Inr n'
      \<and> n \<le> n')
   \<and> (\<exists>m m'. get_proportion_test_group_size_with_pairwise_correction norm_ppf
          (1 / 10) (2 / 10) (5 / 100) (8 / 10) 2 = Inr m
      \<and> get_proportion_test_group_size_with_pairwise_correction norm_ppf
          (1 / 10) (2 / 10) (5 / 100) (975 / 1000) 2 = Inr m'
      \<and> m \<le> m')
   \<and> (\<exists>m m'. get_proportion_test_group_size_with_pairwise_correction norm_ppf
          (1 / 10) (2 / 10) (5 / 100) (8 / 10) 2 = Inr m
      \<and> get_proportion_test_group_size_with_pairwise_correction norm_ppf
          (1 / 10) (2 / 10) (5 / 100) (8 / 10) 4 = Inr m'
      \<and> m \<le> m')"
proof -
  let ?z2 = "Phi_inv (1 - (5 / 100) / comb 2 2 / 2)"
  let ?z4 = "Phi_inv (1 - (5 / 100) / comb 4 2 / 2)"
  let ?zp = "Phi_inv (8 / 10)"
  let ?zq = "Phi_inv (975 / 1000)"
  let ?s1 = "sqrt (2 * ((1 / 10 + 2 / 10) / 2) * (1 - (1 / 10 + 2 / 10) / 2))"
  let ?s2 = "sqrt (1 / 10 * (1 - 1 / 10) + 2 / 10 * (1 - 2 / 10))"
  note f2 = quantile_atD(1) [OF q975'] and f4 = quantile_atD(1) [OF q239']
    and fp = quantile_atD(1) [OF q80'] and fq = quantile_atD(1) [OF q975'']
  have a1: "get_t_test_group_size_with_pairwise_correction norm_ppf 4 1 (5 / 100) (8 / 10) 2
      = Inr \<lceil>2 * 4 * (?z2 + ?zp)\<^sup>2 / 1\<^sup>2\<rceil>"
    by (rule t_test_value [OF _ _ _ _ _ _ f2 fp]) simp_all
  have a2: "get_t_test_group_size_with_pairwise_correction norm_ppf 4 2 (5 / 100) (8 / 10) 2
      = Inr \<lceil>2 * 4 * (?z2 + ?zp)\<^sup>2 / 2\<^sup>2\<rceil>"
    by (rule t_test_value [OF _ _ _ _ _ _ f2 fp]) simp_all
  have a3: "get_t_test_group_size_with_pairwise_correction norm_ppf 4 1 (5 / 100) (975 / 1000) 2
      = Inr \<lceil>2 * 4 * (?z2 + ?zq)\<^sup>2 / 1\<^sup>2\<rceil>"
    by (rule t_test_value [OF _ _ _ _ _ _ f2 fq]) simp_all
  have a4: "get_t_test_group_size_with_pairwise_correction norm_ppf 4 1 (5 / 100) (8 / 10) 4
      = Inr \<lceil>2 * 4 * (?z4 + ?zp)\<^sup>2 / 1\<^sup>2\<rceil>"
    by (rule t_test_value [OF _ _ _ _ _ _ f4 fp]) simp_all
  have b1: "get_proportion_test_group_size_with_pairwise_correction norm_ppf
      (1 / 10) (2 / 10) (5 / 100) (8 / 10) 2
      = Inr \<lceil>((?z2 * ?s1 + ?zp * ?s2) / \<bar>2 / 10 - 1 / 10\<bar>)\<^sup>2\<rceil>"
    by (rule proportion_value [OF _ _ _ _ _ _ _ f2 fp]) simp_all
  have b3: "get_proportion_test_group_size_with_pairwise_correction norm_ppf
      (1 / 10) (2 / 10) (5 / 100) (975 / 1000) 2
      = Inr \<lceil>((?z2 * ?s1 + ?zq * ?s2) / \<bar>2 / 10 - 1 / 10\<bar>)\<^sup>2\<rceil>"
    by (rule proportion_value [OF _ _ _ _ _ _ _ f2 fq]) simp_all
  have b4: "get_proportion_test_group_size_with_pairwise_correction norm_ppf
      (1 / 10) (2 / 10) (5 / 100) (8 / 10) 4
      = Inr \<lceil>((?z4 * ?s1 + ?zp * ?s2) / \<bar>2 / 10 - 1 / 10\<bar>)\<^sup>2\<rceil>"
    by (rule proportion_value [OF _ _ _ _ _ _ _ f4 fp]) simp_all
  have pq: "?zp \<le> ?zq"
    by (rule quantile_mono [OF q80' q975'']) simp
  have z24: "?z2 \<le> ?z4"
    by (rule quantile_mono [OF q975' q239']) (simp add: comb_2_2 comb_4_2)
  have z2: "0 \<le> ?z2"
    by (rule quantile_nonneg [OF q975']) (simp add: comb_2_2)
  have zp: "0 \<le> ?zp"
    by (rule quantile_nonneg [OF q80']) simp
  have s: "0 \<le> ?z2 + ?zp" using z2 zp by (rule add_nonneg_nonneg)
  have d: "\<bar>1 :: real\<bar> \<le> \<bar>2\<bar>" by simp
  note g = group_size_monotone [where ppf = norm_ppf]
  from g [THEN conjunct1, rule_format, OF a1 a2 d]
  have c1: "\<lceil>2 * 4 * (?z2 + ?zp)\<^sup>2 / 2\<^sup>2\<rceil> \<le> \<lceil>2 * 4 * (?z2 + ?zp)\<^sup>2 / 1\<^sup>2\<rceil>" .
  from g [THEN conjunct2, THEN conjunct1, rule_format, OF a1 a3 f2 fp fq s pq]
  have c2: "\<lceil>2 * 4 * (?z2 + ?zp)\<^sup>2 / 1\<^sup>2\<rceil> \<le> \<lceil>2 * 4 * (?z2 + ?zq)\<^sup>2 / 1\<^sup>2\<rceil>" .
  from g [THEN conjunct2, THEN conjunct2, THEN conjunct1, rule_format, OF a1 a4 f2 f4 fp s z24]
  have c3: "\<lceil>2 * 4 * (?z2 + ?zp)\<^sup>2 / 1\<^sup>2\<rceil> \<le> \<lceil>2 * 4 * (?z4 + ?zp)\<^sup>2 / 1\<^sup>2\<rceil>" .
  from g [THEN conjunct2, THEN conjunct2, THEN conjunct2, THEN conjunct1, rule_format,
      OF b1 b3 f2 fp fq z2 zp pq]
  have c4: "\<lceil>((?z2 * ?s1 + ?zp * ?s2) / \<bar>2 / 10 - 1 / 10\<bar>)\<^sup>2\<rceil>
      \<le> \<lceil>((?z2 * ?s1 + ?zq * ?s2) / \<bar>2 / 10 - 1 / 10\<bar>)\<^sup>2\<rceil>" .
  from g [THEN conjunct2, THEN conjunct2, THEN conjunct2, THEN conjunct2, rule_format,
      OF b1 b4 f2 f4 fp z2 zp z24]
  have c5: "\<lceil>((?z2 * ?s1 + ?zp * ?s2) / \<bar>2 / 10 - 1 / 10\<bar>)\<^sup>2\<rceil>
      \<le> \<lceil>((?z4 * ?s1 + ?zp * ?s2) / \<bar>2 / 10 - 1 / 10\<bar>)\<^sup>2\<rceil>" .
  show ?thesis
    unfolding a1 a2 a3 a4 b1 b3 b4 using c1 c2 c3 c4 c5 by (simp only: sum.inject simp_thms ex_simps)
qed

text \<open>
  The claim as stated fails for the proportion comparison: with \<open>p1 = 0.1\<close> fixed,
  \<open>|p2 - p1|\<close> grows from 0.09 (\<open>p2 = 0.01\<close>) to 0.1 (\<open>p2 = 0.2\<close>) and the returned size grows
  (from at most 100 to more than 100), because the variance terms depend on \<open>p2\<close> itself.
\<close>

theorem proportion_spread_counterexample:
  "\<not> isl (get_proportion_test_group_size_with_pairwise_correction norm_ppf
           (1 / 10) (1 / 100) (5 / 100) (8 / 10) 2)
   \<and> \<not> isl (get_proportion_test_group_size_with_pairwise_correction norm_ppf
           (1 / 10) (2 / 10) (5 / 100) (8 / 10) 2)
   \<and> \<bar>1 / 100 - 1 / 10\<bar> < \<bar>2 / 10 - 1 / (10 :: real)\<bar>
   \<and> projr (get_proportion_test_group_size_with_pairwise_correction norm_ppf
           (1 / 10) (1 / 100) (5 / 100) (8 / 10) 2)
     < projr (get_proportion_test_group_size_with_pairwise_correction norm_ppf
           (1 / 10) (2 / 10) (5 / 100) (8 / 10) 2)"
proof -
  let ?za = "Phi_inv (1 - (5 / 100) / comb 2 2 / 2)" and ?zp = "Phi_inv (8 / 10)"
  let ?a1 = "sqrt (2 * ((1 / 10 + 1 / 100) / 2) * (1 - (1 / 10 + 1 / 100) / 2))"
  let ?a2 = "sqrt (1 / 10 * (1 - 1 / 10) + 1 / 100 * (1 - 1 / 100))"
  let ?b1 = "sqrt (2 * ((1 / 10 + 2 / 10) / 2) * (1 - (1 / 10 + 2 / 10) / 2))"
  let ?b2 = "sqrt (1 / 10 * (1 - 1 / 10) + 2 / 10 * (1 - 2 / 10))"
  let ?xa = "(?za * ?a1 + ?zp * ?a2) / \<bar>1 / 100 - 1 / 10\<bar>"
  let ?xb = "(?za * ?b1 + ?zp * ?b2) / \<bar>2 / 10 - 1 / 10\<bar>"
  have zp: "0.835 < ?zp" "?zp < 0.844"
    using z80_bounds by simp_all
  have za: "1.95 < ?za" "?za < 1.962"
    using z975_bounds by (simp_all add: comb_2_2)
  have va: "get_proportion_test_group_size_with_pairwise_correction norm_ppf
      (1 / 10) (1 / 100) (5 / 100) (8 / 10) 2 = Inr \<lceil>?xa\<^sup>2\<rceil>"
    by (rule proportion_value [OF _ _ _ _ _ _ _ quantile_atD(1) [OF q975']
          quantile_atD(1) [OF q80']]) simp_all
  have vb: "get_proportion_test_group_size_with_pairwise_correction norm_ppf
      (1 / 10) (2 / 10) (5 / 100) (8 / 10) 2 = Inr \<lceil>?xb\<^sup>2\<rceil>"
    by (rule proportion_value [OF _ _ _ _ _ _ _ quantile_atD(1) [OF q975']
          quantile_atD(1) [OF q80']]) simp_all
  have a1: "0 \<le> ?a1" "?a1 < 0.3225"
    by (simp, rule real_less_lsqrt) (simp_all add: power2_eq_square)
  have a2: "0 \<le> ?a2" "?a2 < 0.3161"
    by (simp, rule real_less_lsqrt) (simp_all add: power2_eq_square)
  have b1: "0.5049 < ?b1"
    by (rule real_less_rsqrt) (simp add: power2_eq_square)
  have b2: "0.4999 < ?b2"
    by (rule real_less_rsqrt) (simp add: power2_eq_square)
  have "?za * ?a1 + ?zp * ?a2 < 1.962 * 0.3225 + 0.844 * 0.3161"
    using za zp a1 a2 by (intro weighted_sum_less) simp_all
  then have na: "?za * ?a1 + ?zp * ?a2 < 0.9" by simp
  have na0: "0 \<le> ?za * ?a1 + ?zp * ?a2"
    using za zp a1 a2 by (intro add_nonneg_nonneg mult_nonneg_nonneg) simp_all
  have xa: "0 \<le> ?xa" "?xa < 10"
    using na na0 by (simp_all add: divide_less_eq)
  have "?xa\<^sup>2 < 10\<^sup>2"
    using xa by (intro power_strict_mono) simp_all
  then have "?xa\<^sup>2 \<le> 100" by simp
  then have ca: "\<lceil>?xa\<^sup>2\<rceil> \<le> 100"
    by (simp only: ceiling_le_iff of_int_numeral)
  have "1.95 * 0.5049 + 0.835 * 0.4999 < ?za * ?b1 + ?zp * ?b2"
    using za zp b1 b2 by (intro weighted_sum_less) simp_all
  then have "1.4 < ?za * ?b1 + ?zp * ?b2" by simp
  then have xb: "14 < ?xb"
    by (simp add: less_divide_eq)
  have "14\<^sup>2 < ?xb\<^sup>2"
    using xb by (intro power_strict_mono) simp_all
  then have "100 < ?xb\<^sup>2" by simp
  then have cb: "100 < \<lceil>?xb\<^sup>2\<rceil>"
    by (simp only: less_ceiling_iff of_int_numeral)
  from ca cb have lt: "\<lceil>?xa\<^sup>2\<rceil> < \<lceil>?xb\<^sup>2\<rceil>"
    by (rule le_less_trans)
  have ab: "\<bar>1 / 100 - 1 / 10\<bar> < \<bar>2 / 10 - 1 / (10 :: real)\<bar>"
    by simp
  from lt ab show ?thesis
    unfolding va vb by (simp only: sum.disc sum.sel simp_thms)
qed

end
